theory Spec2Isabelle
  imports Complex_Main "HOL-Library.Multiset"
begin

section \<open>JavaScript numbers\<close>

text \<open>
  The component computes with JavaScript Numbers, the IEEE 754 binary64 values. A Number is
  modelled as a real or one of the three non-finite values. The operations of this section
  follow ECMAScript on the non-finite values (\<open>0/0\<close>, \<open>Infinity - Infinity\<close> and every
  operation on \<open>NaN\<close> give \<open>NaN\<close>; every comparison with \<open>NaN\<close> is false) and give the exact
  real result on finite arguments; the operations of the next section round that result to
  the nearest double. The sign of zero is outside the model (a zero divisor counts as \<open>+0\<close>).

  The score engine rounds its results to integer percentages and counts the ratios that
  reach a threshold, so \<open>computeScore\<close> and \<open>computePitchVariety\<close> are written with the
  rounded operations. The frame analysis and the stability formula \<open>computePitchStability\<close>
  are written with the exact ones: what the code computes there is the value of the model up
  to the rounding of each operation.
\<close>

datatype jsnum = Fin real | PInf | NInf | NaN

fun jneg :: "jsnum \<Rightarrow> jsnum" where
  "jneg (Fin a) = Fin (- a)"
| "jneg PInf = NInf"
| "jneg NInf = PInf"
| "jneg NaN = NaN"

fun jadd :: "jsnum \<Rightarrow> jsnum \<Rightarrow> jsnum" where
  "jadd (Fin a) (Fin b) = Fin (a + b)"
| "jadd NaN _ = NaN"
| "jadd _ NaN = NaN"
| "jadd PInf NInf = NaN"
| "jadd NInf PInf = NaN"
| "jadd PInf _ = PInf"
| "jadd _ PInf = PInf"
| "jadd NInf _ = NInf"
| "jadd _ NInf = NInf"

definition jsub :: "jsnum \<Rightarrow> jsnum \<Rightarrow> jsnum" where
  "jsub x y = jadd x (jneg y)"

text \<open>The infinity of a given sign; a zero sign stands for an undefined product or quotient.\<close>

definition inf_of :: "real \<Rightarrow> jsnum" where
  "inf_of s = (if 0 < s then PInf else if s < 0 then NInf else NaN)"

fun jsgn :: "jsnum \<Rightarrow> real" where
  "jsgn (Fin a) = sgn a"
| "jsgn PInf = 1"
| "jsgn NInf = - 1"
| "jsgn NaN = 0"

fun jmul :: "jsnum \<Rightarrow> jsnum \<Rightarrow> jsnum" where
  "jmul (Fin a) (Fin b) = Fin (a * b)"
| "jmul NaN _ = NaN"
| "jmul _ NaN = NaN"
| "jmul x y = inf_of (jsgn x * jsgn y)"

fun jdiv :: "jsnum \<Rightarrow> jsnum \<Rightarrow> jsnum" where
  "jdiv (Fin a) (Fin b) = (if b = 0 then inf_of a else Fin (a / b))"
| "jdiv NaN _ = NaN"
| "jdiv _ NaN = NaN"
| "jdiv (Fin a) _ = Fin 0"
| "jdiv x (Fin b) = inf_of (jsgn x * (if b < 0 then - 1 else 1))"
| "jdiv _ _ = NaN"

text \<open>\<open>Math.sqrt\<close>, \<open>Math.abs\<close>, \<open>Math.round\<close> (half up), \<open>Math.floor\<close>, \<open>Math.log2\<close>.\<close>

fun jsqrt :: "jsnum \<Rightarrow> jsnum" where
  "jsqrt (Fin a) = (if a < 0 then NaN else Fin (sqrt a))"
| "jsqrt PInf = PInf"
| "jsqrt NInf = NaN"
| "jsqrt NaN = NaN"

fun jabs :: "jsnum \<Rightarrow> jsnum" where
  "jabs (Fin a) = Fin \<bar>a\<bar>"
| "jabs PInf = PInf"
| "jabs NInf = PInf"
| "jabs NaN = NaN"

fun jround :: "jsnum \<Rightarrow> jsnum" where
  "jround (Fin a) = Fin (of_int \<lfloor>a + 1 / 2\<rfloor>)"
| "jround x = x"

fun jfloor :: "jsnum \<Rightarrow> jsnum" where
  "jfloor (Fin a) = Fin (of_int \<lfloor>a\<rfloor>)"
| "jfloor x = x"

fun jlog2 :: "jsnum \<Rightarrow> jsnum" where
  "jlog2 (Fin a) = (if 0 < a then Fin (log 2 a) else if a = 0 then NInf else NaN)"
| "jlog2 PInf = PInf"
| "jlog2 NInf = NaN"
| "jlog2 NaN = NaN"

text \<open>The remainder operator \<open>%\<close>: the result has the sign of the dividend.\<close>

fun jrem :: "jsnum \<Rightarrow> jsnum \<Rightarrow> jsnum" where
  "jrem (Fin a) (Fin b) =
     (if b = 0 then NaN else Fin (a - b * of_int (if 0 \<le> a / b then \<lfloor>a / b\<rfloor> else \<lceil>a / b\<rceil>)))"
| "jrem NaN _ = NaN"
| "jrem _ NaN = NaN"
| "jrem (Fin a) _ = Fin a"
| "jrem _ _ = NaN"

text \<open>The comparisons \<open><\<close>, \<open>>\<close>, \<open><=\<close>, \<open>>=\<close>.\<close>

fun jlt :: "jsnum \<Rightarrow> jsnum \<Rightarrow> bool" where
  "jlt (Fin a) (Fin b) = (a < b)"
| "jlt NaN _ = False"
| "jlt _ NaN = False"
| "jlt _ NInf = False"
| "jlt NInf _ = True"
| "jlt PInf _ = False"
| "jlt _ PInf = True"

fun jle :: "jsnum \<Rightarrow> jsnum \<Rightarrow> bool" where
  "jle (Fin a) (Fin b) = (a \<le> b)"
| "jle NaN _ = False"
| "jle _ NaN = False"
| "jle NInf _ = True"
| "jle _ PInf = True"
| "jle _ _ = False"

definition jgt :: "jsnum \<Rightarrow> jsnum \<Rightarrow> bool" where
  "jgt x y = jlt y x"

definition jge :: "jsnum \<Rightarrow> jsnum \<Rightarrow> bool" where
  "jge x y = jle y x"

text \<open>\<open>Math.max\<close> and \<open>Math.min\<close> of two arguments: \<open>NaN\<close> if either is.\<close>

fun jmax :: "jsnum \<Rightarrow> jsnum \<Rightarrow> jsnum" where
  "jmax NaN _ = NaN"
| "jmax _ NaN = NaN"
| "jmax x y = (if jlt x y then y else x)"

fun jmin :: "jsnum \<Rightarrow> jsnum \<Rightarrow> jsnum" where
  "jmin NaN _ = NaN"
| "jmin _ NaN = NaN"
| "jmin x y = (if jlt y x then y else x)"

text \<open>Truthiness of a Number: \<open>0\<close> and \<open>NaN\<close> are falsy.\<close>

fun truthy :: "jsnum \<Rightarrow> bool" where
  "truthy (Fin a) = (a \<noteq> 0)"
| "truthy NaN = False"
| "truthy _ = True"

fun isFinite :: "jsnum \<Rightarrow> bool" where
  "isFinite (Fin a) = True"
| "isFinite _ = False"

section \<open>Binary64 arithmetic\<close>

text \<open>
  The finite result of an operation on doubles is the double nearest to the exact result,
  a tie going to the even significand. \<open>rne\<close> rounds a real to an integer that way; \<open>expo\<close>
  is the binary exponent of a real, the one of the subnormal range below \<open>2 ^ - 1022\<close>;
  \<open>ulp\<close> is the spacing of the doubles at that exponent, 52 binary places below it; \<open>r64\<close>
  rounds to a multiple of that spacing, and \<open>b64\<close> overflows to the infinity of the sign
  when the rounded value reaches \<open>2 ^ 1024\<close>.
\<close>

definition rne :: "real \<Rightarrow> int" where
  "rne r = (let f = \<lfloor>r\<rfloor>; d = r - of_int f
            in if d < 1 / 2 then f else if 1 / 2 < d then f + 1 else if even f then f else f + 1)"

definition expo :: "real \<Rightarrow> int" where
  "expo x = max \<lfloor>log 2 \<bar>x\<bar>\<rfloor> (- 1022)"

definition ulp :: "real \<Rightarrow> real" where
  "ulp x = 2 powr of_int (expo x - 52)"

definition r64 :: "real \<Rightarrow> real" where
  "r64 x = (if x = 0 then 0 else of_int (rne (x / ulp x)) * ulp x)"

definition b64 :: "real \<Rightarrow> jsnum" where
  "b64 x = (if 2 ^ 1024 \<le> \<bar>r64 x\<bar> then inf_of x else Fin (r64 x))"

text \<open>A decimal literal of the source denotes the double nearest to it.\<close>

definition lit :: "real \<Rightarrow> jsnum" where
  "lit r = b64 r"

text \<open>
  The operators \<open>+\<close>, \<open>-\<close>, \<open>*\<close>, \<open>/\<close> and \<open>Math.sqrt\<close> on doubles: the exact result, rounded.
\<close>

fun rnd :: "jsnum \<Rightarrow> jsnum" where
  "rnd (Fin a) = b64 a"
| "rnd x = x"

definition fadd :: "jsnum \<Rightarrow> jsnum \<Rightarrow> jsnum" where
  "fadd x y = rnd (jadd x y)"

definition fsub :: "jsnum \<Rightarrow> jsnum \<Rightarrow> jsnum" where
  "fsub x y = rnd (jsub x y)"

definition fmul :: "jsnum \<Rightarrow> jsnum \<Rightarrow> jsnum" where
  "fmul x y = rnd (jmul x y)"

definition fdiv :: "jsnum \<Rightarrow> jsnum \<Rightarrow> jsnum" where
  "fdiv x y = rnd (jdiv x y)"

definition fsqrt :: "jsnum \<Rightarrow> jsnum" where
  "fsqrt x = rnd (jsqrt x)"

section \<open>The score engine\<close>

text \<open>
  Array lengths and counters are integers below \<open>2 ^ 32\<close>, which doubles represent: they
  enter the arithmetic unrounded.
\<close>

text \<open>\<^verbatim>\<open>clamp01(v) { return Math.max(0, Math.min(1, v)); }\<close>\<close>

definition clamp01 :: "jsnum \<Rightarrow> jsnum" where
  "clamp01 v = jmax (Fin 0) (jmin (Fin 1) v)"

text \<open>\<^verbatim>\<open>pitches.filter(p => p >= 80 && p <= 800)\<close>\<close>

definition cleaned :: "jsnum list \<Rightarrow> jsnum list" where
  "cleaned pitches = filter (\<lambda>p. jge p (Fin 80) \<and> jle p (Fin 800)) pitches"

text \<open>\<open>x ** 2\<close>\<close>

definition jpow2 :: "jsnum \<Rightarrow> jsnum" where
  "jpow2 x = jmul x x"

definition computePitchStability :: "jsnum list \<Rightarrow> jsnum" where
  "computePitchStability pitches =
     (if length pitches < 8 then Fin 0.35
      else let cl = cleaned pitches in
        if length cl < 8 then Fin 0.35
        else let mean = jdiv (foldl jadd (Fin 0) cl) (Fin (real (length cl)));
                 variance = jdiv (foldl (\<lambda>acc p. jadd acc (jpow2 (jsub p mean))) (Fin 0) cl)
                                 (Fin (real (length cl)));
                 std = jsqrt variance
             in clamp01 (jsub (Fin 1) (jdiv (jsub std (Fin 15)) (Fin 85))))"

text \<open>
  The same function in binary64 arithmetic, as \<open>computeScore\<close> calls it. The engines compute
  \<open>x ** 2\<close> as the rounded product \<open>x * x\<close>.
\<close>

definition fpow2 :: "jsnum \<Rightarrow> jsnum" where
  "fpow2 x = fmul x x"

definition computePitchStability64 :: "jsnum list \<Rightarrow> jsnum" where
  "computePitchStability64 pitches =
     (if length pitches < 8 then lit 0.35
      else let cl = cleaned pitches in
        if length cl < 8 then lit 0.35
        else let mean = fdiv (foldl fadd (Fin 0) cl) (Fin (real (length cl)));
                 variance = fdiv (foldl (\<lambda>acc p. fadd acc (fpow2 (fsub p mean))) (Fin 0) cl)
                                 (Fin (real (length cl)));
                 std = fsqrt variance
             in clamp01 (fsub (Fin 1) (fdiv (fsub std (Fin 15)) (Fin 85))))"

text \<open>
  \<^verbatim>\<open>const semitone = Math.pow(2, 1 / 12);\<close> The engines return the double
  \<open>1.0594630943592953\<close>, the one nearest to the twelfth root of 2.
\<close>

definition semitone :: jsnum where
  "semitone = Fin (4771397596969315 / 2 ^ 52)"

text \<open>\<^verbatim>\<open>const ratio = b > a ? b / a : a / b;\<close>\<close>

definition ratio :: "jsnum \<Rightarrow> jsnum \<Rightarrow> jsnum" where
  "ratio a b = (if jgt b a then fdiv b a else fdiv a b)"

text \<open>
  The loop \<^verbatim>\<open>for (let i = 1; i < cleaned.length; i++)\<close> over adjacent pairs
  \<open>a = cleaned[i - 1]\<close>, \<open>b = cleaned[i]\<close>, with the counter \<open>moves\<close> as accumulator.
\<close>

fun count_moves :: "jsnum list \<Rightarrow> nat \<Rightarrow> nat" where
  "count_moves (a # b # rest) moves =
     count_moves (b # rest) (if jge (ratio a b) semitone then Suc moves else moves)"
| "count_moves _ moves = moves"

definition computePitchVariety :: "jsnum list \<Rightarrow> jsnum" where
  "computePitchVariety pitches =
     (if length pitches < 8 then lit 0.2
      else let cl = cleaned pitches in
        if length cl < 8 then lit 0.2
        else let moves = count_moves cl 0;
                 moveRate = fdiv (Fin (real moves)) (jmax (Fin 1) (Fin (real (length cl) - 1)));
                 centered = fsub (Fin 1) (fdiv (jabs (fsub moveRate (lit 0.18))) (lit 0.18))
             in clamp01 centered)"

record ScoreBreakdown =
  score :: jsnum
  energy :: jsnum
  stability :: jsnum
  variety :: jsnum

text \<open>
  \<open>Math.max(...xs)\<close> starts from \<open>-Infinity\<close>; \<open>xs.reduce((a, b) => a + b, 0)\<close> is a left fold.
  (The limit of an engine on the number of spread arguments is outside the model.)
\<close>

definition max_spread :: "jsnum list \<Rightarrow> jsnum" where
  "max_spread xs = foldl jmax NInf xs"

text \<open>The energy part of \<open>computeScore\<close>: the average, the peak and their clamped mix.\<close>

definition energyScore :: "jsnum list \<Rightarrow> jsnum" where
  "energyScore energySamples =
     (let avgEnergy = (if length energySamples \<noteq> 0
                       then fdiv (foldl fadd (Fin 0) energySamples) (Fin (real (length energySamples)))
                       else Fin 0);
          peakEnergy = (if length energySamples \<noteq> 0 then max_spread energySamples else Fin 0)
      in clamp01 (fadd (fmul avgEnergy (lit 0.75)) (fmul peakEnergy (lit 0.25))))"

definition computeScore :: "jsnum list \<Rightarrow> jsnum list \<Rightarrow> ScoreBreakdown" where
  "computeScore energySamples pitchSamples =
     (let energyScore = energyScore energySamples;
          stabilityScore = computePitchStability64 pitchSamples;
          varietyScore = computePitchVariety pitchSamples;
          raw = fadd (fadd (fmul energyScore (lit 0.45)) (fmul stabilityScore (lit 0.35)))
                     (fmul varietyScore (lit 0.20));
          score = jround (fmul (clamp01 raw) (Fin 100))
      in \<lparr> ScoreBreakdown.score = score,
           ScoreBreakdown.energy = jround (fmul energyScore (Fin 100)),
           ScoreBreakdown.stability = jround (fmul stabilityScore (Fin 100)),
           ScoreBreakdown.variety = jround (fmul varietyScore (Fin 100)) \<rparr>)"

section \<open>Frame analysis\<close>

text \<open>
  The sum of squares that both \<open>loop\<close> (\<^verbatim>\<open>sum += v * v\<close>) and \<open>estimatePitchHz\<close>
  (\<^verbatim>\<open>rms += buf[i] * buf[i]\<close>) accumulate from \<open>0\<close> over the whole buffer, and the
  root mean square \<^verbatim>\<open>Math.sqrt(sum / buf.length)\<close> taken from it.
\<close>

definition sum_squares :: "jsnum list \<Rightarrow> jsnum" where
  "sum_squares buf = foldl (\<lambda>sum v. jadd sum (jmul v v)) (Fin 0) buf"

definition rms_of :: "jsnum list \<Rightarrow> jsnum" where
  "rms_of buf = jsqrt (jdiv (sum_squares buf) (Fin (real (length buf))))"

text \<open>
  \<open>buf[i]\<close>: a read outside the array gives \<open>undefined\<close>, which the arithmetic around it
  turns into \<open>NaN\<close>.
\<close>

definition sample_at :: "jsnum list \<Rightarrow> int \<Rightarrow> jsnum" where
  "sample_at buf i = (if 0 \<le> i \<and> i < int (length buf) then buf ! nat i else NaN)"

text \<open>
  The inner loop of \<open>estimatePitchHz\<close>:
  \<^verbatim>\<open>for (let i = 0; i < buf.length - lag; i++) corr += (buf[i] - mean) * (buf[i + lag] - mean)\<close>.
\<close>

definition corr_at :: "jsnum list \<Rightarrow> jsnum \<Rightarrow> int \<Rightarrow> jsnum" where
  "corr_at buf mean lag =
     foldl (\<lambda>corr i. jadd corr (jmul (jsub (sample_at buf (int i)) mean) (jsub (sample_at buf (int i + lag)) mean)))
       (Fin 0) [0 ..< nat (int (length buf) - lag)]"

text \<open>
  The outer loop \<^verbatim>\<open>for (let lag = minLag; lag <= maxLag; lag++)\<close>, carrying
  \<open>bestLag\<close> and \<open>bestCorr\<close>. The lags are integers: both bounds are floors of finite
  quotients.
\<close>

function lag_loop :: "jsnum list \<Rightarrow> jsnum \<Rightarrow> int \<Rightarrow> int \<Rightarrow> int \<Rightarrow> jsnum \<Rightarrow> int \<times> jsnum" where
  "lag_loop buf mean lag maxLag bestLag bestCorr =
     (if lag \<le> maxLag
      then (let corr = corr_at buf mean lag
            in if jgt corr bestCorr
               then lag_loop buf mean (lag + 1) maxLag lag corr
               else lag_loop buf mean (lag + 1) maxLag bestLag bestCorr)
      else (bestLag, bestCorr))"
  by pat_completeness auto
termination
  by (relation "measure (\<lambda>(buf, mean, lag, maxLag, bestLag, bestCorr). nat (maxLag + 1 - lag))") auto

declare lag_loop.simps [simp del]

text \<open>
  \<open>estimatePitchHz(buf, sampleRate)\<close>. The sample rate is that of an \<open>AudioContext\<close> (or
  the literal 44100), a finite number, and is taken as a real. \<open>None\<close> is \<open>null\<close>.
\<close>

definition estimatePitchHz :: "jsnum list \<Rightarrow> real \<Rightarrow> jsnum option" where
  "estimatePitchHz buf sampleRate =
     (let minHz = 80;
          maxHz = 800;
          minLag = \<lfloor>sampleRate / maxHz\<rfloor>;
          maxLag = \<lfloor>sampleRate / minHz\<rfloor>;
          rms = rms_of buf
      in if jlt rms (Fin 0.015) then None
         else let mean = jdiv (foldl jadd (Fin 0) buf) (Fin (real (length buf)));
                  (bestLag, bestCorr) = lag_loop buf mean minLag maxLag (- 1) (Fin 0)
              in if bestLag \<le> 0 then None
                 else let hz = jdiv (Fin sampleRate) (Fin (of_int bestLag))
                      in if \<not> isFinite hz then None else Some hz)"

section \<open>Note names\<close>

definition noteNames :: "string list" where
  "noteNames = [''C'', ''C#'', ''D'', ''D#'', ''E'', ''F'', ''F#'', ''G'', ''G#'', ''A'', ''A#'', ''B'']"

text \<open>
  \<open>noteNames[k]\<close> inside a template literal: an index that is not one of \<open>0..11\<close> reads
  \<open>undefined\<close>, which the template prints as such.
\<close>

fun name_at :: "jsnum \<Rightarrow> string" where
  "name_at (Fin r) =
     (if of_int \<lfloor>r\<rfloor> = r \<and> 0 \<le> r \<and> r < 12 then noteNames ! nat \<lfloor>r\<rfloor> else ''undefined'')"
| "name_at _ = ''undefined''"

text \<open>Decimal printing of the octave, an integer or a non-finite value.\<close>

definition digit_char :: "nat \<Rightarrow> char" where
  "digit_char d = ''0123456789'' ! d"

fun show_nat :: "nat \<Rightarrow> string" where
  "show_nat n = (if n < 10 then [digit_char n] else show_nat (n div 10) @ [digit_char (n mod 10)])"

definition show_int :: "int \<Rightarrow> string" where
  "show_int k = (if k < 0 then CHR ''-'' # show_nat (nat (- k)) else show_nat (nat k))"

fun show_num :: "jsnum \<Rightarrow> string" where
  "show_num (Fin r) = show_int \<lfloor>r\<rfloor>"
| "show_num PInf = ''Infinity''"
| "show_num NInf = ''-Infinity''"
| "show_num NaN = ''NaN''"

definition hzToNote :: "jsnum \<Rightarrow> string" where
  "hzToNote hz =
     (let A4 = Fin 440;
          n = jround (jmul (Fin 12) (jlog2 (jdiv hz A4)));
          midi = jadd (Fin 69) n;
          name = name_at (jrem (jadd midi (Fin 1200)) (Fin 12));
          octave = jsub (jfloor (jdiv midi (Fin 12))) (Fin 1)
      in name @ show_num octave)"

section \<open>The component and its round\<close>

datatype Stage = onboarding | ready | singing | results

datatype Mode = local_mode | challenge_mode

text \<open>
  A string that comes from the user (the player's name) is a list of UTF-16 code units;
  \<open>utf16\<close> gives the code units of an ASCII literal of the program.
\<close>

type_synonym jsstring = "nat list"

definition utf16 :: "string \<Rightarrow> jsstring" where
  "utf16 str = map of_char str"

text \<open>
  \<open>ts\<close> holds \<open>Date.now()\<close>, an integer count of milliseconds. \<open>mode\<close> is \<open>'local'\<close> or
  \<open>'challenge'\<close>.
\<close>

record ScoreEntry =
  name :: jsstring
  score :: jsnum
  ts :: int
  mode :: Mode

text \<open>\<open>RoundSummary\<close> is the score breakdown spread into an object with a time stamp.\<close>

record RoundSummary = ScoreBreakdown +
  ts :: int

text \<open>
  The fields of \<open>AppComponent\<close>. A browser object (\<open>AnalyserNode\<close>, \<open>MediaStream\<close>) is
  present or \<open>null\<close>; of the \<open>AudioContext\<close> only its sample rate is read; a timer or
  animation-frame handle is a positive integer or \<open>null\<close>; \<open>timeData\<close> is \<open>undefined\<close> or
  the samples last written into it.
\<close>

record AppComponent =
  stage :: Stage
  error :: "string option"
  playerName :: jsstring
  challengeName :: "jsstring option"
  challengeScore :: "jsnum option"
  energy :: jsnum
  pitchHz :: "jsnum option"
  pitchNote :: "string option"
  levelBar :: jsnum
  secondsLeft :: int
  lastRound :: "RoundSummary option"
  leaderboard :: "ScoreEntry list"
  personalBest :: "ScoreEntry option"
  audioCtx :: "real option"
  analyser :: bool
  mediaStream :: bool
  rafId :: "nat option"
  roundTimerId :: "nat option"
  timeData :: "jsnum list option"
  energySamples :: "jsnum list"
  pitchSamples :: "jsnum list"

text \<open>
  The field initialisers. The constructor then reads the stored leaderboard and the
  challenge link, which are parameters here.
\<close>

definition init :: "jsstring \<Rightarrow> ScoreEntry list \<Rightarrow> ScoreEntry option \<Rightarrow> AppComponent" where
  "init storedName storedBoard storedBest =
     \<lparr> stage = onboarding, error = None, playerName = storedName,
       challengeName = None, challengeScore = None,
       energy = Fin 0, pitchHz = None, pitchNote = None, levelBar = Fin 0,
       secondsLeft = 10, lastRound = None,
       leaderboard = storedBoard, personalBest = storedBest,
       audioCtx = None, analyser = False, mediaStream = False,
       rafId = None, roundTimerId = None, timeData = None,
       energySamples = [], pitchSamples = [] \<rparr>"

text \<open>
  \<open>loop()\<close>: one animation frame. \<open>frame\<close> is what \<open>getFloatTimeDomainData\<close> writes into
  \<open>timeData\<close> (in the running component always 2048 samples) and \<open>raf\<close> the handle that
  \<open>requestAnimationFrame\<close> returns.
\<close>

definition loop :: "jsnum list \<Rightarrow> nat \<Rightarrow> AppComponent \<Rightarrow> AppComponent" where
  "loop frame raf s =
     (if \<not> analyser s \<or> timeData s = None then s
      else let rms = rms_of frame;
               e = clamp01 (jmul rms (Fin 4.0));
               lb = jadd (jmul (levelBar s) (Fin 0.85)) (jmul e (Fin 0.15));
               pitch = estimatePitchHz frame (case audioCtx s of Some r \<Rightarrow> r | None \<Rightarrow> 44100)
           in s\<lparr> timeData := Some frame,
                 energy := e,
                 levelBar := lb,
                 pitchHz := pitch,
                 pitchNote := (case pitch of
                                 Some p \<Rightarrow> if truthy p then Some (hzToNote p) else None
                               | None \<Rightarrow> None),
                 energySamples := (if stage s = singing then energySamples s @ [e] else energySamples s),
                 pitchSamples := (case pitch of
                                    Some p \<Rightarrow> if stage s = singing \<and> truthy p then pitchSamples s @ [p]
                                              else pitchSamples s
                                  | None \<Rightarrow> pitchSamples s),
                 rafId := Some raf \<rparr>)"

text \<open>
  \<open>enableMic()\<close>: either \<open>getUserMedia\<close> resolves and the audio graph is built (the context
  has sample rate \<open>rate\<close>, \<open>timeData\<close> is allocated with \<open>fftSize = 2048\<close> zeros and the first
  \<open>loop()\<close> runs), or \<open>getUserMedia\<close> rejects and the \<open>catch\<close> branch runs. An exception
  half way through building the graph is not modelled.
\<close>

definition enableMic :: "bool \<Rightarrow> real \<Rightarrow> jsnum list \<Rightarrow> nat \<Rightarrow> AppComponent \<Rightarrow> AppComponent" where
  "enableMic granted rate frame raf s =
     (if granted
      then loop frame raf
             (s\<lparr> error := None, mediaStream := True, audioCtx := Some rate, analyser := True,
                 timeData := Some (replicate 2048 (Fin 0)), stage := ready \<rparr>)
      else s\<lparr> error := Some ''Mic permission denied (or unavailable). This game needs mic access.'',
              stage := onboarding \<rparr>)"

text \<open>\<open>startRound()\<close>; \<open>tid\<close> is the handle that \<open>setInterval\<close> returns.\<close>

definition startRound :: "nat \<Rightarrow> AppComponent \<Rightarrow> AppComponent" where
  "startRound tid s =
     (if \<not> analyser s \<or> timeData s = None then s
      else s\<lparr> error := None, stage := singing, secondsLeft := 10, lastRound := None,
              energySamples := [], pitchSamples := [], roundTimerId := Some tid \<rparr>)"

definition stopRound :: "AppComponent \<Rightarrow> AppComponent" where
  "stopRound s = s\<lparr> roundTimerId := None, stage := (if analyser s then ready else onboarding) \<rparr>"

definition stopAudio :: "AppComponent \<Rightarrow> AppComponent" where
  "stopAudio s = s\<lparr> rafId := None, mediaStream := False, audioCtx := None, analyser := False \<rparr>"

definition ngOnDestroy :: "AppComponent \<Rightarrow> AppComponent" where
  "ngOnDestroy s = stopAudio (stopRound s)"

text \<open>
  \<open>String.prototype.trim\<close> strips the white space and line terminators of ECMAScript from
  both ends: TAB, LF, VT, FF, CR, SPACE, NO-BREAK SPACE, U+1680, U+2000 to U+200A, U+2028,
  U+2029, U+202F, U+205F, U+3000 and U+FEFF. \<open>slice(0, 18)\<close> keeps the first 18 code units.
\<close>

definition is_space :: "nat \<Rightarrow> bool" where
  "is_space u = (u \<in> set [0x09, 0x0A, 0x0B, 0x0C, 0x0D, 0x20, 0xA0, 0x1680, 0x2028, 0x2029,
                            0x202F, 0x205F, 0x3000, 0xFEFF]
                 \<or> (0x2000 \<le> u \<and> u \<le> 0x200A))"

definition trim :: "jsstring \<Rightarrow> jsstring" where
  "trim str = rev (dropWhile is_space (rev (dropWhile is_space str)))"

text \<open>
  The comparator \<^verbatim>\<open>(a, b) => b.score - a.score || b.ts - a.ts\<close>: \<open>||\<close> gives its left
  operand when that is truthy.
\<close>

definition compare_entries :: "ScoreEntry \<Rightarrow> ScoreEntry \<Rightarrow> jsnum" where
  "compare_entries a b =
     (let d = jsub (ScoreEntry.score b) (ScoreEntry.score a)
      in if truthy d then d else jsub (Fin (of_int (ScoreEntry.ts b))) (Fin (of_int (ScoreEntry.ts a))))"

text \<open>
  \<open>Array.prototype.sort(cmp)\<close>. ECMAScript fixes its result only when the comparator is
  consistent on the elements: then it is the stable sort, in which \<open>b\<close> goes before \<open>a\<close>
  exactly when \<open>cmp(a, b) > 0\<close> (a \<open>NaN\<close> from the comparator counts as \<open>0\<close>), here the
  stable insertion sort \<open>sort_by\<close>. For any other comparator the result is some
  rearrangement of the elements that the engine chooses. So the sort of the engine is a
  parameter \<open>srt\<close> of the model, of which \<open>array_sort srt cmp\<close> says what ECMAScript
  guarantees. \<open>consistent_on\<close> asks that \<open>cmp\<close> orders the elements as a total preorder,
  which implies the consistency of ECMAScript.
\<close>

fun insert_by :: "('a \<Rightarrow> 'a \<Rightarrow> jsnum) \<Rightarrow> 'a \<Rightarrow> 'a list \<Rightarrow> 'a list" where
  "insert_by cmp x [] = [x]"
| "insert_by cmp x (y # ys) = (if jgt (cmp x y) (Fin 0) then y # insert_by cmp x ys else x # y # ys)"

fun sort_by :: "('a \<Rightarrow> 'a \<Rightarrow> jsnum) \<Rightarrow> 'a list \<Rightarrow> 'a list" where
  "sort_by cmp [] = []"
| "sort_by cmp (x # xs) = insert_by cmp x (sort_by cmp xs)"

definition consistent_on :: "('a \<Rightarrow> 'a \<Rightarrow> jsnum) \<Rightarrow> 'a list \<Rightarrow> bool" where
  "consistent_on cmp xs =
     (\<forall>a \<in> set xs. \<forall>b \<in> set xs. \<forall>c \<in> set xs.
        cmp a b \<noteq> NaN
      \<and> \<not> jlt (cmp a a) (Fin 0) \<and> \<not> jgt (cmp a a) (Fin 0)
      \<and> (jlt (cmp a b) (Fin 0) \<longleftrightarrow> jgt (cmp b a) (Fin 0))
      \<and> (jlt (cmp a b) (Fin 0) \<and> jlt (cmp b c) (Fin 0) \<longrightarrow> jlt (cmp a c) (Fin 0))
      \<and> (\<not> jlt (cmp a b) (Fin 0) \<and> \<not> jlt (cmp b c) (Fin 0) \<longrightarrow> \<not> jlt (cmp a c) (Fin 0)))"

definition array_sort :: "('a list \<Rightarrow> 'a list) \<Rightarrow> ('a \<Rightarrow> 'a \<Rightarrow> jsnum) \<Rightarrow> bool" where
  "array_sort srt cmp =
     (\<forall>xs. mset (srt xs) = mset xs \<and> (consistent_on cmp xs \<longrightarrow> srt xs = sort_by cmp xs))"

text \<open>
  \<open>finishRound()\<close>; \<open>srt\<close> is the engine's sort with the comparator above, \<open>now1\<close> and
  \<open>now2\<close> are the two readings of \<open>Date.now()\<close>. \<open>saveToStorage\<close> and \<open>fireConfetti\<close>
  write to \<open>localStorage\<close> and the document only.
\<close>

definition finishRound ::
  "(ScoreEntry list \<Rightarrow> ScoreEntry list) \<Rightarrow> int \<Rightarrow> int \<Rightarrow> AppComponent \<Rightarrow> AppComponent" where
  "finishRound srt now1 now2 s =
     (let sc = computeScore (energySamples s) (pitchSamples s);
          nm = take 18 (trim (if playerName s \<noteq> [] then playerName s else utf16 ''Player''));
          entry = \<lparr> ScoreEntry.name = nm, ScoreEntry.score = ScoreBreakdown.score sc,
                    ScoreEntry.ts = now2,
                    mode = (if challengeScore s \<noteq> None then challenge_mode else local_mode) \<rparr>;
          board = take 25 (srt (entry # leaderboard s));
          best = (case personalBest s of
                    Some b \<Rightarrow> if jgt (ScoreEntry.score entry) (ScoreEntry.score b) then entry else b
                  | None \<Rightarrow> entry)
      in s\<lparr> roundTimerId := None,
            lastRound := Some \<lparr> ScoreBreakdown.score = ScoreBreakdown.score sc,
                               ScoreBreakdown.energy = ScoreBreakdown.energy sc,
                               ScoreBreakdown.stability = ScoreBreakdown.stability sc,
                               ScoreBreakdown.variety = ScoreBreakdown.variety sc,
                               RoundSummary.ts = now1 \<rparr>,
            stage := results,
            leaderboard := board,
            personalBest := Some best \<rparr>)"

text \<open>
  The interval callback armed by \<open>startRound\<close>; a cleared interval never fires.
\<close>

definition tick ::
  "(ScoreEntry list \<Rightarrow> ScoreEntry list) \<Rightarrow> int \<Rightarrow> int \<Rightarrow> AppComponent \<Rightarrow> AppComponent" where
  "tick srt now1 now2 s =
     (if roundTimerId s = None then s
      else let s' = s\<lparr> secondsLeft := secondsLeft s - 1 \<rparr>
           in if secondsLeft s' \<le> 0 then finishRound srt now1 now2 s' else s')"

section \<open>The scoring formulas as specified\<close>

text \<open>
  The stability formula as the specification words it, over real numbers: \<open>cleaned_r\<close>
  keeps the finite samples inside the vocal band \<open>[80, 800]\<close> Hz, \<open>pop_std\<close> is their
  population standard deviation.
\<close>

definition clamp01_r :: "real \<Rightarrow> real" where
  "clamp01_r v = max 0 (min 1 v)"

definition cleaned_r :: "jsnum list \<Rightarrow> real list" where
  "cleaned_r pitches = [r. Fin r \<leftarrow> pitches, 80 \<le> r \<and> r \<le> 800]"

definition mean_r :: "real list \<Rightarrow> real" where
  "mean_r xs = sum_list xs / real (length xs)"

definition pop_std :: "real list \<Rightarrow> real" where
  "pop_std xs = sqrt ((\<Sum>x\<leftarrow>xs. (x - mean_r xs)\<^sup>2) / real (length xs))"

definition spec_stability :: "real list \<Rightarrow> real" where
  "spec_stability xs = (if length xs < 8 then 0.35 else clamp01_r (1 - (pop_std xs - 15) / 85))"

text \<open>
  The move rate as the specification words it, in the arithmetic of the code: the fraction
  of the adjacent pairs whose larger value divided by the smaller is at least a semitone.
\<close>

definition larger_smaller :: "jsnum \<Rightarrow> jsnum \<Rightarrow> jsnum" where
  "larger_smaller a b = fdiv (jmax a b) (jmin a b)"

definition semitone_moves :: "jsnum list \<Rightarrow> nat" where
  "semitone_moves xs =
     length (filter (\<lambda>(a, b). jge (larger_smaller a b) semitone) (zip xs (tl xs)))"

definition moveRate :: "jsnum list \<Rightarrow> jsnum" where
  "moveRate xs = fdiv (Fin (real (semitone_moves xs))) (Fin (real (length xs - 1)))"

text \<open>The reward \<open>clamp01(1 - |moveRate - 0.18| / 0.18)\<close> of a move rate.\<close>

definition reward :: "jsnum \<Rightarrow> jsnum" where
  "reward m = clamp01 (fsub (Fin 1) (fdiv (jabs (fsub m (lit 0.18))) (lit 0.18)))"

section \<open>Properties and traces\<close>

text \<open>A value that is neither negative nor \<open>NaN\<close>.\<close>

fun nonneg :: "jsnum \<Rightarrow> bool" where
  "nonneg (Fin a) = (0 \<le> a)"
| "nonneg PInf = True"
| "nonneg _ = False"

text \<open>
  A well-formed note: one of the twelve names followed by a decimal octave. \<open>midi_of\<close> is
  the MIDI number \<open>69 + round(12 * log2(hz / 440))\<close> of a positive frequency.
\<close>

definition well_formed_note :: "string \<Rightarrow> bool" where
  "well_formed_note str = (\<exists>nm \<in> set noteNames. \<exists>k. str = nm @ show_int k)"

definition midi_of :: "real \<Rightarrow> int" where
  "midi_of h = 69 + \<lfloor>12 * log 2 (h / 440) + 1 / 2\<rfloor>"

text \<open>
  The order of the leaderboard: \<open>a\<close> may stand before \<open>b\<close> when its score is higher, or
  the scores are equal and \<open>a\<close> is at least as recent.
\<close>

definition outranks :: "ScoreEntry \<Rightarrow> ScoreEntry \<Rightarrow> bool" where
  "outranks a b = (jgt (ScoreEntry.score a) (ScoreEntry.score b)
                   \<or> (ScoreEntry.score a = ScoreEntry.score b \<and> ScoreEntry.ts b \<le> ScoreEntry.ts a))"

text \<open>The microphone pipeline is in place: the guard of \<open>startRound\<close> and \<open>loop\<close> passes.\<close>

definition enabled :: "AppComponent \<Rightarrow> bool" where
  "enabled s = (analyser s \<and> timeData s \<noteq> None)"

text \<open>
  What the browser and the user do to the component. An animation-frame callback runs
  \<open>loop\<close> only while one is pending (\<open>stopAudio\<close> cancels it).
\<close>

datatype event =
    EnableMic bool real "jsnum list" nat
  | Frame "jsnum list" nat
  | StartRound nat
  | StopRound
  | Tick int int
  | Destroy

fun step :: "(ScoreEntry list \<Rightarrow> ScoreEntry list) \<Rightarrow> AppComponent \<Rightarrow> event \<Rightarrow> AppComponent" where
  "step srt s (EnableMic granted rate frame raf) = enableMic granted rate frame raf s"
| "step srt s (Frame frame raf) = (if rafId s = None then s else loop frame raf s)"
| "step srt s (StartRound tid) = startRound tid s"
| "step srt s StopRound = stopRound s"
| "step srt s (Tick now1 now2) = tick srt now1 now2 s"
| "step srt s Destroy = ngOnDestroy s"

definition run ::
  "(ScoreEntry list \<Rightarrow> ScoreEntry list) \<Rightarrow> event list \<Rightarrow> AppComponent \<Rightarrow> AppComponent" where
  "run srt evs s = foldl (step srt) s evs"

text \<open>The frames of a list, each with its handle, fed to \<open>loop\<close> in order.\<close>

definition run_frames :: "(jsnum list \<times> nat) list \<Rightarrow> AppComponent \<Rightarrow> AppComponent" where
  "run_frames fs s = foldl (\<lambda>s (frame, raf). loop frame raf s) s fs"

text \<open>\<open>start(); frames; abort(); start()\<close>.\<close>

definition restart :: "nat \<Rightarrow> (jsnum list \<times> nat) list \<Rightarrow> nat \<Rightarrow> AppComponent \<Rightarrow> AppComponent" where
  "restart t1 fs t2 s = startRound t2 (stopRound (run_frames fs (startRound t1 s)))"

text \<open>What holds of every component that was never destroyed.\<close>

definition fresh :: "AppComponent \<Rightarrow> bool" where
  "fresh s = (enabled s \<or> (energySamples s = [] \<and> pitchSamples s = [] \<and> secondsLeft s = 10
                             \<and> roundTimerId s = None))"

section \<open>Sample inputs\<close>

text \<open>Pitch samples of rounds: steady, swinging, and with move rates 0.18 and 0.36.\<close>

definition steady8 :: "jsnum list" where
  "steady8 = replicate 8 (Fin 200)"

definition swing8 :: "jsnum list" where
  "swing8 = [Fin 100, Fin 300, Fin 100, Fin 300, Fin 100, Fin 300, Fin 100, Fin 300]"



text \<open>
  A round that rises once, from 200 Hz to the double \<open>211.89261887185904\<close>: the exact ratio
  is below the twelfth root of 2, the quotient of the doubles is the double \<open>semitone\<close>.
\<close>

definition near_semitone8 :: "jsnum list" where
  "near_semitone8 = Fin 200 # replicate 7 (Fin (3727654372632277 / 2 ^ 44))"

text \<open>
  Frames of the analyser's size: silence, all \<open>NaN\<close>, and a clipping frame with one
  \<open>NaN\<close> sample.
\<close>

definition silent2048 :: "jsnum list" where
  "silent2048 = replicate 2048 (Fin 0)"

definition nan2048 :: "jsnum list" where
  "nan2048 = replicate 2048 NaN"

definition clipped_nan :: "jsnum list" where
  "clipped_nan = NaN # replicate 2047 (Fin 1)"

text \<open>A 56-sample buffer with unit pulses 55 samples apart.\<close>

definition pulse56 :: "jsnum list" where
  "pulse56 = Fin 1 # replicate 54 (Fin 0) @ [Fin 1]"

text \<open>The component after the microphone was enabled on silence.\<close>

definition mic_on :: AppComponent where
  "mic_on = enableMic True 44100 silent2048 1 (init [] [] None)"

text \<open>
  A session in the middle of a round: the microphone enabled, a round started, a silent
  frame observed and one second gone.
\<close>

definition mid_round :: "event list" where
  "mid_round = [EnableMic True 44100 silent2048 1, StartRound 1, Frame silent2048 2, Tick 0 0]"

text \<open>
  Two leaderboard entries, and a session that starts with the two entries in order and
  plays one round in which a single frame, of \<open>NaN\<close> samples, arrives.
\<close>

definition ann :: ScoreEntry where
  "ann = \<lparr> ScoreEntry.name = utf16 ''Ann'', ScoreEntry.score = Fin 50, ScoreEntry.ts = 5,
           mode = local_mode \<rparr>"

definition bob :: ScoreEntry where
  "bob = \<lparr> ScoreEntry.name = utf16 ''Bob'', ScoreEntry.score = Fin 62, ScoreEntry.ts = 3,
           mode = local_mode \<rparr>"

definition nan_round :: "(ScoreEntry list \<Rightarrow> ScoreEntry list) \<Rightarrow> AppComponent" where
  "nan_round srt =
     run srt ([EnableMic True 44100 silent2048 1, StartRound 1, Frame nan2048 2]
              @ replicate 10 (Tick 8 9))
       (init [] [bob, ann] None)"

text \<open>The entry of a round whose score is \<open>NaN\<close>, finished at time 9.\<close>

definition nan_entry :: ScoreEntry where
  "nan_entry = \<lparr> ScoreEntry.name = utf16 ''Player'', ScoreEntry.score = NaN, ScoreEntry.ts = 9,
                 mode = local_mode \<rparr>"

section \<open>Facts about binary64 rounding\<close>

text \<open>
  Rounding to an integer: the integer within less than a half, the even one of the two at a
  half; monotone and odd.
\<close>

lemma rne_eqI: "\<bar>r - of_int m\<bar> < 1 / 2 \<Longrightarrow> rne r = m"
proof -
  assume a: "\<bar>r - of_int m\<bar> < 1 / 2"
  show ?thesis
  proof (cases "of_int m \<le> r")
    case True
    then have "\<lfloor>r\<rfloor> = m" using a by (auto simp: floor_eq_iff)
    then show ?thesis using a True by (simp add: rne_def Let_def)
  next
    case False
    then have "\<lfloor>r\<rfloor> = m - 1" using a by (auto simp: floor_eq_iff)
    then show ?thesis using a False by (auto simp: rne_def Let_def)
  qed
qed

lemma rne_tie: "\<bar>r - of_int m\<bar> = 1 / 2 \<Longrightarrow> even m \<Longrightarrow> rne r = m"
proof -
  assume a: "\<bar>r - of_int m\<bar> = 1 / 2" and e: "even m"
  show ?thesis
  proof (cases "of_int m \<le> r")
    case True
    then have r: "r = of_int m + 1 / 2" using a by linarith
    have "\<lfloor>r\<rfloor> = m" unfolding r by (simp add: floor_eq_iff)
    then show ?thesis using e by (simp add: rne_def Let_def r)
  next
    case False
    then have r: "r = of_int (m - 1) + 1 / 2" using a by simp
    have f: "\<lfloor>r\<rfloor> = m - 1" unfolding r by (simp add: floor_eq_iff)
    have "odd (m - 1)" using e by simp
    then show ?thesis unfolding rne_def Let_def f by (simp add: r)
  qed
qed

lemma rne_of_int [simp]: "rne (of_int m) = m"
  by (rule rne_eqI) simp

lemma rne_ge_floor: "\<lfloor>r\<rfloor> \<le> rne r"
  by (simp add: rne_def Let_def)

lemma rne_le_floor1: "rne r \<le> \<lfloor>r\<rfloor> + 1"
  by (simp add: rne_def Let_def)

lemma rne_le: "r \<le> of_int N \<Longrightarrow> rne r \<le> N"
proof -
  assume a: "r \<le> of_int N"
  then have f: "\<lfloor>r\<rfloor> \<le> N" by (auto simp: floor_le_iff)
  show ?thesis
  proof (cases "\<lfloor>r\<rfloor> = N")
    case True
    then have "r = of_int N" using a by linarith
    then show ?thesis by simp
  next
    case False
    then show ?thesis using f rne_le_floor1 [of r] by linarith
  qed
qed

lemma rne_ge: "of_int N \<le> r \<Longrightarrow> N \<le> rne r"
proof -
  assume "of_int N \<le> r"
  then have "N \<le> \<lfloor>r\<rfloor>" by (simp add: le_floor_iff)
  then show ?thesis using rne_ge_floor [of r] by linarith
qed

lemma rne_mono: "r \<le> s \<Longrightarrow> rne r \<le> rne s"
proof -
  assume a: "r \<le> s"
  then have f: "\<lfloor>r\<rfloor> \<le> \<lfloor>s\<rfloor>" by (rule floor_mono)
  show ?thesis
  proof (cases "\<lfloor>r\<rfloor> = \<lfloor>s\<rfloor>")
    case True
    then show ?thesis using a by (simp add: rne_def Let_def) 
  next
    case False
    then show ?thesis using f rne_le_floor1 [of r] rne_ge_floor [of s] by linarith
  qed
qed

lemma rne_minus: "rne (- r) = - rne r"
proof (cases "r = of_int \<lfloor>r\<rfloor>")
  case True
  then obtain k where "r = of_int k" ..
  then show ?thesis by (simp flip: of_int_minus)
next
  case False
  then have lt: "of_int \<lfloor>r\<rfloor> < r" using of_int_floor_le [of r] by linarith
  have ub: "r < of_int \<lfloor>r\<rfloor> + 1" by linarith
  have fl: "\<lfloor>- r\<rfloor> = - \<lfloor>r\<rfloor> - 1"
    unfolding floor_eq_iff using lt by (simp, linarith)
  show ?thesis using lt by (auto simp: rne_def Let_def fl)
qed


text \<open>The exponent and the spacing of the doubles around a real.\<close>

lemma ulp_pos [simp]: "0 < ulp x"
  by (simp add: ulp_def)

lemma ulp_nonneg [simp]: "0 \<le> ulp x"
  by (simp add: ulp_def)

lemma ulp_not_neg [simp]: "\<not> ulp x < 0"
  by (simp add: ulp_def not_less)

lemma expo_minus [simp]: "expo (- x) = expo x"
  by (simp add: expo_def)

lemma ulp_minus [simp]: "ulp (- x) = ulp x"
  by (simp add: ulp_def)

lemma r64_minus: "r64 (- x) = - r64 x"
  by (simp add: r64_def rne_minus)

lemma expo_upper: "x \<noteq> 0 \<Longrightarrow> \<bar>x\<bar> < 2 powr of_int (expo x + 1)"
proof -
  assume x: "x \<noteq> 0"
  have "\<lfloor>log 2 \<bar>x\<bar>\<rfloor> \<le> expo x" by (simp add: expo_def)
  then have "log 2 \<bar>x\<bar> < of_int (expo x + 1)" by linarith
  then show ?thesis using x by (simp add: log_less_iff)
qed

lemma expo_lower: "- 1022 < expo x \<Longrightarrow> x \<noteq> 0 \<Longrightarrow> 2 powr of_int (expo x) \<le> \<bar>x\<bar>"
proof -
  assume e: "- 1022 < expo x" and x: "x \<noteq> 0"
  from e have "expo x = \<lfloor>log 2 \<bar>x\<bar>\<rfloor>" by (simp add: expo_def max_def split: if_splits)
  then have "of_int (expo x) \<le> log 2 \<bar>x\<bar>" by simp
  then show ?thesis using x by (simp add: le_log_iff)
qed

lemma expo_mono: "0 < x \<Longrightarrow> x \<le> y \<Longrightarrow> expo x \<le> expo y"
proof -
  assume x: "0 < x" and xy: "x \<le> y"
  then have "log 2 \<bar>x\<bar> \<le> log 2 \<bar>y\<bar>" by simp
  then have "\<lfloor>log 2 \<bar>x\<bar>\<rfloor> \<le> \<lfloor>log 2 \<bar>y\<bar>\<rfloor>" by (rule floor_mono)
  then show ?thesis unfolding expo_def by (intro max.mono order_refl)
qed

lemma two_powr_53: "2 powr (a + 1) / 2 powr (a - 52) = (2::real) ^ 53"
proof -
  have "2 powr (a + 1) / 2 powr (a - 52) = (2::real) powr ((a + 1) - (a - 52))"
    by (simp only: powr_diff)
  also have "(a + 1) - (a - 52) = (53::real)" by simp
  also have "(2::real) powr 53 = 2 ^ 53" using powr_realpow [of 2 53] by simp
  finally show ?thesis .
qed

lemma two_powr_52: "2 powr a / 2 powr (a - 52) = (2::real) ^ 52"
proof -
  have "2 powr a / 2 powr (a - 52) = (2::real) powr (a - (a - 52))"
    by (simp only: powr_diff)
  also have "a - (a - 52) = (52::real)" by simp
  also have "(2::real) powr 52 = 2 ^ 52" using powr_realpow [of 2 52] by simp
  finally show ?thesis .
qed

text \<open>
  A positive real rounds to a double of its own binade or to the power of two that ends it,
  so that rounding is monotone over all reals.
\<close>

lemma r64_upper: "0 < x \<Longrightarrow> r64 x \<le> 2 powr of_int (expo x + 1)"
proof -
  assume x: "0 < x"
  then have "x < 2 powr of_int (expo x + 1)" using expo_upper [of x] by simp
  then have "x / ulp x \<le> 2 powr of_int (expo x + 1) / ulp x"
    by (simp add: divide_le_cancel)
  then have "x / ulp x \<le> of_int (2 ^ 53)" by (simp add: ulp_def two_powr_53)
  then have "rne (x / ulp x) \<le> 2 ^ 53" by (rule rne_le)
  then have "(of_int (rne (x / ulp x)) :: real) \<le> of_int (2 ^ 53)" by (simp only: of_int_le_iff)
  then have "of_int (rne (x / ulp x)) * ulp x \<le> of_int (2 ^ 53) * ulp x"
    by (intro mult_right_mono) simp_all
  also have "of_int (2 ^ 53) * ulp x = 2 powr of_int (expo x + 1)"
    using two_powr_53 [of "of_int (expo x)"] by (simp add: ulp_def field_simps)
  finally show ?thesis using x by (simp add: r64_def)
qed

lemma r64_lower: "0 < x \<Longrightarrow> - 1022 < expo x \<Longrightarrow> 2 powr of_int (expo x) \<le> r64 x"
proof -
  assume x: "0 < x" and e: "- 1022 < expo x"
  then have "2 powr of_int (expo x) \<le> x" using expo_lower [of x] by simp
  then have "2 powr of_int (expo x) / ulp x \<le> x / ulp x"
    by (simp add: divide_le_cancel)
  then have "of_int (2 ^ 52) \<le> x / ulp x" by (simp add: ulp_def two_powr_52)
  then have "2 ^ 52 \<le> rne (x / ulp x)" by (rule rne_ge)
  then have "(of_int (2 ^ 52) :: real) \<le> of_int (rne (x / ulp x))" by (simp only: of_int_le_iff)
  then have "of_int (2 ^ 52) * ulp x \<le> of_int (rne (x / ulp x)) * ulp x"
    by (intro mult_right_mono) simp_all
  moreover have "of_int (2 ^ 52) * ulp x = 2 powr of_int (expo x)"
    using two_powr_52 [of "of_int (expo x)"] by (simp add: ulp_def field_simps)
  ultimately have "2 powr of_int (expo x) \<le> of_int (rne (x / ulp x)) * ulp x" by (simp only:)
  then show ?thesis using x by (simp add: r64_def)
qed

lemma r64_nonneg: "0 \<le> x \<Longrightarrow> 0 \<le> r64 x"
proof -
  assume x: "0 \<le> x"
  then have "of_int 0 \<le> x / ulp x" by simp
  then have "0 \<le> rne (x / ulp x)" by (rule rne_ge)
  then show ?thesis by (simp add: r64_def)
qed

lemma r64_mono_pos: "0 < x \<Longrightarrow> x \<le> y \<Longrightarrow> r64 x \<le> r64 y"
proof -
  assume x: "0 < x" and xy: "x \<le> y"
  then have y: "0 < y" by simp
  have e: "expo x \<le> expo y" using x xy by (rule expo_mono)
  show ?thesis
  proof (cases "expo x = expo y")
    case True
    then have u: "ulp x = ulp y" by (simp add: ulp_def)
    have "x / ulp y \<le> y / ulp y" using xy by (simp add: divide_le_cancel)
    then have "rne (x / ulp y) \<le> rne (y / ulp y)" by (rule rne_mono)
    then have "(of_int (rne (x / ulp y)) :: real) \<le> of_int (rne (y / ulp y))" by (simp only: of_int_le_iff)
    then have "of_int (rne (x / ulp y)) * ulp y \<le> of_int (rne (y / ulp y)) * ulp y" by simp
    then show ?thesis using x y u by (simp add: r64_def)
  next
    case False
    then have lt: "expo x + 1 \<le> expo y" using e by simp
    have "- 1022 \<le> expo x" by (simp add: expo_def)
    then have "- 1022 < expo y" using lt by simp
    then have lo: "2 powr of_int (expo y) \<le> r64 y" using y r64_lower by simp
    have "r64 x \<le> 2 powr of_int (expo x + 1)" using x by (rule r64_upper)
    also have "\<dots> \<le> 2 powr of_int (expo y)" using lt by (simp only: powr_le_cancel_iff of_int_le_iff)
    finally show ?thesis using lo by simp
  qed
qed

lemma r64_mono: "x \<le> y \<Longrightarrow> r64 x \<le> r64 y"
proof -
  assume xy: "x \<le> y"
  consider "0 < x" | "x \<le> 0" "0 \<le> y" | "y < 0" by linarith
  then show ?thesis
  proof cases
    case 1
    then show ?thesis using xy by (rule r64_mono_pos)
  next
    case 2
    have "0 \<le> r64 (- x)" using 2 by (simp add: r64_nonneg)
    then have "r64 x \<le> 0" by (simp add: r64_minus)
    then show ?thesis using r64_nonneg [of y] 2 by simp
  next
    case 3
    then have "r64 (- y) \<le> r64 (- x)" using xy by (simp add: r64_mono_pos)
    then show ?thesis by (simp add: r64_minus)
  qed
qed

text \<open>
  Evaluating a rounding: for a real \<open>x\<close> with \<open>2 ^ 52 \<le> |x| * 2 ^ n < 2 ^ 53\<close> the doubles
  around it are the multiples of \<open>1 / 2 ^ n\<close>, and \<open>x\<close> rounds to \<open>m / 2 ^ n\<close> when \<open>m\<close> is
  within less than a half of \<open>x * 2 ^ n\<close>, or within a half and even.
\<close>

lemma r64I:
  assumes lo: "2 ^ 52 \<le> \<bar>x\<bar> * 2 ^ n" and hi: "\<bar>x\<bar> * 2 ^ n < 2 ^ 53" and n: "n \<le> 1074"
    and m: "\<bar>x * 2 ^ n - of_int m\<bar> < 1 / 2"
  shows "r64 x = of_int m / 2 ^ n"
proof -
  have x: "x \<noteq> 0" using lo by auto
  have p: "(2::real) powr of_int (52 - int n) = 2 ^ 52 / 2 ^ n"
    by (simp add: powr_diff powr_realpow)
  have q: "(2::real) powr of_int (52 - int n + 1) = 2 ^ 53 / 2 ^ n"
    by (simp add: powr_diff powr_add powr_realpow)
  have "\<lfloor>log 2 \<bar>x\<bar>\<rfloor> = 52 - int n"
    using x lo hi by (simp only: floor_log_eq_powr_iff p q) (simp add: field_simps)
  then have e: "expo x = 52 - int n" using n by (simp add: expo_def)
  have u: "ulp x = 1 / 2 ^ n" by (simp add: ulp_def e powr_minus powr_realpow inverse_eq_divide)
  have "rne (x / ulp x) = m" using m by (intro rne_eqI) (simp add: u)
  then show ?thesis using x by (simp add: r64_def u)
qed

lemma b64I:
  assumes lo: "2 ^ 52 \<le> \<bar>x\<bar> * 2 ^ n" and hi: "\<bar>x\<bar> * 2 ^ n < 2 ^ 53" and n: "n \<le> 1074"
    and m: "\<bar>x * 2 ^ n - of_int m\<bar> < 1 / 2"
  shows "b64 x = Fin (of_int m / 2 ^ n)"
proof -
  have r: "r64 x = of_int m / 2 ^ n" using assms by (rule r64I)
  have "\<bar>of_int m :: real\<bar> \<le> \<bar>x * 2 ^ n\<bar> + \<bar>x * 2 ^ n - of_int m\<bar>" by linarith
  also have "\<bar>x * 2 ^ n\<bar> = \<bar>x\<bar> * 2 ^ n" by (simp add: abs_mult)
  finally have b: "\<bar>of_int m :: real\<bar> < 2 ^ 53 + 1" using m hi by linarith
  have "(1::real) \<le> 2 ^ n" by simp
  then have "\<bar>of_int m :: real\<bar> / 2 ^ n \<le> \<bar>of_int m\<bar> / 1"
    by (intro divide_left_mono) simp_all
  then have "\<bar>of_int m / 2 ^ n :: real\<bar> < 2 ^ 53 + 1" using b by (simp add: abs_divide)
  then show ?thesis unfolding b64_def r by simp
qed

lemma r64_0 [simp]: "r64 0 = 0"
  by (simp add: r64_def)

lemma b64_0 [simp]: "b64 0 = Fin 0"
  by (simp add: b64_def)

lemma b64_not_NaN [simp]: "b64 x \<noteq> NaN"
  by (cases "x = 0") (auto simp: b64_def inf_of_def)


text \<open>
  A fraction \<open>m / 2 ^ n\<close> with \<open>|m| < 2 ^ 53\<close> is a double and rounds to itself; hence reals
  within such bounds round to doubles within them.
\<close>

lemma r64_dyadic:
  assumes m: "\<bar>m\<bar> < 2 ^ 53" and n: "n \<le> 1074"
  shows "r64 (of_int m / 2 ^ n) = of_int m / 2 ^ n"
proof (cases "m = 0")
  case True
  then show ?thesis by simp
next
  case False
  define x :: real where "x = of_int m / 2 ^ n"
  have x: "x \<noteq> 0" using False by (simp add: x_def)
  have "\<bar>of_int m :: real\<bar> < of_int (2 ^ 53)" using m by (simp only: of_int_less_iff flip: of_int_abs)
  then have "\<bar>x\<bar> < 2 ^ 53 / 2 ^ n" by (simp add: x_def abs_divide divide_strict_right_mono)
  also have "\<dots> = 2 powr of_int (53 - int n)" by (simp add: powr_diff powr_realpow)
  finally have "log 2 \<bar>x\<bar> < of_int (53 - int n)" using x by (simp add: log_less_iff)
  then have "\<lfloor>log 2 \<bar>x\<bar>\<rfloor> < 53 - int n" by (simp only: floor_less_iff)
  then have e: "expo x \<le> 52 - int n" using n by (simp add: expo_def)
  define k where "k = nat (52 - int n - expo x)"
  have ek: "expo x - 52 = - int (n + k)" using e by (simp add: k_def)
  have "ulp x = 2 powr (- real (n + k))" unfolding ulp_def ek by simp
  also have "\<dots> = 1 / 2 ^ (n + k)" by (simp only: powr_minus powr_realpow inverse_eq_divide)
  finally have u: "ulp x = 1 / 2 ^ (n + k)" .
  have "x / ulp x = of_int (m * 2 ^ k)" unfolding u by (simp add: x_def power_add)
  then have "rne (x / ulp x) = m * 2 ^ k" by (simp only: rne_of_int)
  then have "r64 x = of_int (m * 2 ^ k) * ulp x" using x by (simp add: r64_def)
  also have "\<dots> = x" unfolding u by (simp add: x_def power_add)
  finally show ?thesis by (simp only: x_def)
qed

lemma r64_of_int: "\<bar>m\<bar> < 2 ^ 53 \<Longrightarrow> r64 (of_int m) = of_int m"
  using r64_dyadic [of m 0] by simp




lemma b64_tie:
  assumes lo: "2 ^ 52 \<le> \<bar>x\<bar> * 2 ^ n" and hi: "\<bar>x\<bar> * 2 ^ n < 2 ^ 53" and n: "n \<le> 1074"
    and m: "\<bar>x * 2 ^ n - of_int m\<bar> = 1 / 2" and e: "even m" and y: "y = of_int m / 2 ^ n"
  shows "b64 x = Fin y"
proof -
  have x: "x \<noteq> 0" using lo by auto
  have p: "(2::real) powr of_int (52 - int n) = 2 ^ 52 / 2 ^ n"
    by (simp add: powr_diff powr_realpow)
  have q: "(2::real) powr of_int (52 - int n + 1) = 2 ^ 53 / 2 ^ n"
    by (simp add: powr_diff powr_add powr_realpow)
  have "\<lfloor>log 2 \<bar>x\<bar>\<rfloor> = 52 - int n"
    using x lo hi by (simp only: floor_log_eq_powr_iff p q) (simp add: field_simps)
  then have ex: "expo x = 52 - int n" using n by (simp add: expo_def)
  have u: "ulp x = 1 / 2 ^ n" by (simp add: ulp_def ex powr_minus powr_realpow inverse_eq_divide)
  have "rne (x / ulp x) = m" using m e by (intro rne_tie) (simp_all add: u)
  then have r: "r64 x = of_int m / 2 ^ n" using x by (simp add: r64_def u)
  have "\<bar>of_int m :: real\<bar> \<le> \<bar>x * 2 ^ n\<bar> + \<bar>x * 2 ^ n - of_int m\<bar>" by linarith
  also have "\<bar>x * 2 ^ n\<bar> = \<bar>x\<bar> * 2 ^ n" by (simp add: abs_mult)
  finally have b: "\<bar>of_int m :: real\<bar> < 2 ^ 53 + 1" using m hi by linarith
  have "(1::real) \<le> 2 ^ n" by simp
  then have "\<bar>of_int m :: real\<bar> / 2 ^ n \<le> \<bar>of_int m\<bar> / 1"
    by (intro divide_left_mono) simp_all
  then have "\<bar>of_int m / 2 ^ n :: real\<bar> < 2 ^ 53 + 1" using b by (simp add: abs_divide)
  then show ?thesis unfolding b64_def r y by simp
qed

lemma b64_eval:
  assumes "2 ^ 52 \<le> \<bar>x\<bar> * 2 ^ n" and "\<bar>x\<bar> * 2 ^ n < 2 ^ 53" and "n \<le> 1074"
    and "\<bar>x * 2 ^ n - of_int m\<bar> < 1 / 2" and "y = of_int m / 2 ^ n"
  shows "b64 x = Fin y"
  using b64I [OF assms(1-4)] assms(5) by simp


text \<open>The rounded operations on finite arguments.\<close>

lemma rnd_not_NaN [simp]: "rnd x = NaN \<longleftrightarrow> x = NaN"
  by (cases x) simp_all

lemma fadd_Fin [simp]: "fadd (Fin a) (Fin b) = b64 (a + b)"
  by (simp add: fadd_def)

lemma fsub_Fin [simp]: "fsub (Fin a) (Fin b) = b64 (a - b)"
  by (simp add: fsub_def jsub_def)

lemma fmul_Fin [simp]: "fmul (Fin a) (Fin b) = b64 (a * b)"
  by (simp add: fmul_def)

lemma fdiv_Fin [simp]: "b \<noteq> 0 \<Longrightarrow> fdiv (Fin a) (Fin b) = b64 (a / b)"
  by (simp add: fdiv_def)


section \<open>Facts about the score engine\<close>

lemma jsub_Fin [simp]: "jsub (Fin a) (Fin b) = Fin (a - b)"
  by (simp add: jsub_def)

lemma clamp01_Fin: "clamp01 (Fin r) = Fin (clamp01_r r)"
  by (simp add: clamp01_def clamp01_r_def max_def min_def)

lemma cleaned_eq: "cleaned ps = map Fin (cleaned_r ps)"
proof (induction ps)
  case Nil
  show ?case by (simp add: cleaned_def cleaned_r_def)
next
  case (Cons p ps)
  then show ?case
    by (cases p) (simp_all add: cleaned_def cleaned_r_def jge_def)
qed

lemma length_cleaned_r_le: "length (cleaned_r ps) \<le> length ps"
proof -
  have "length (cleaned ps) \<le> length ps"
    by (simp add: cleaned_def)
  then show ?thesis by (simp add: cleaned_eq)
qed

lemma foldl_jadd_Fin: "foldl jadd (Fin a) (map Fin rs) = Fin (a + sum_list rs)"
  by (induction rs arbitrary: a) (simp_all add: add.assoc)

lemma foldl_var_Fin:
  "foldl (\<lambda>acc p. jadd acc (jpow2 (jsub p (Fin m)))) (Fin a) (map Fin rs)
     = Fin (a + (\<Sum>r\<leftarrow>rs. (r - m)\<^sup>2))"
  by (induction rs arbitrary: a) (simp_all add: add.assoc jpow2_def power2_eq_square)

lemma stability_refines: "computePitchStability ps = Fin (spec_stability (cleaned_r ps))"
proof (cases "length (cleaned_r ps) < 8")
  case True
  then show ?thesis
    by (simp add: computePitchStability_def spec_stability_def cleaned_eq Let_def)
next
  case False
  then have n: "\<not> length ps < 8" "real (length (cleaned_r ps)) \<noteq> 0"
    using length_cleaned_r_le [of ps] by auto
  have nonneg: "0 \<le> (\<Sum>r\<leftarrow>cleaned_r ps. (r - mean_r (cleaned_r ps))\<^sup>2) / real (length (cleaned_r ps))"
    by (intro divide_nonneg_nonneg sum_list_nonneg) auto
  show ?thesis
    using False n nonneg
    by (simp add: computePitchStability_def spec_stability_def cleaned_eq Let_def
        foldl_jadd_Fin foldl_var_Fin clamp01_Fin pop_std_def mean_r_def not_less)
qed

lemma cleaned_r_range: "r \<in> set (cleaned_r ps) \<Longrightarrow> 80 \<le> r \<and> r \<le> 800"
proof (induction ps)
  case Nil
  then show ?case by (simp add: cleaned_r_def)
next
  case (Cons p ps)
  then show ?case
    by (cases p) (auto simp: cleaned_r_def split: if_splits)
qed



lemma clamp01_r_bounds: "0 \<le> clamp01_r v" "clamp01_r v \<le> 1"
  by (simp_all add: clamp01_r_def)


lemma clamp01_NaN: "clamp01 NaN = NaN"
  by (simp add: clamp01_def)

lemma nonneg_square: "v \<noteq> NaN \<Longrightarrow> nonneg (jmul v v)"
  by (cases v) (simp_all add: inf_of_def)

lemma nonneg_jadd: "nonneg x \<Longrightarrow> nonneg y \<Longrightarrow> nonneg (jadd x y)"
  by (cases x; cases y) simp_all

lemma nonneg_jdiv: "nonneg x \<Longrightarrow> 0 < n \<Longrightarrow> nonneg (jdiv x (Fin n))"
  by (cases x) (simp_all add: inf_of_def)

lemma nonneg_jsqrt: "nonneg x \<Longrightarrow> nonneg (jsqrt x)"
  by (cases x) simp_all

lemma clamp01_nonneg: "nonneg x \<Longrightarrow> \<exists>r. clamp01 x = Fin r \<and> 0 \<le> r \<and> r \<le> 1"
  by (cases x) (simp_all add: clamp01_def)

text \<open>
  The roundings that occur in the literals of the score engine and in the rounds scored
  below: each real on the left lies between two neighbouring doubles and the one on the
  right is the nearer, or the even one of the two when the real is half way.
\<close>

lemma rd_1: "b64 (3 / 4) = Fin (3 / 4)"
  by (rule b64_eval [where n = 53 and m = "6755399441055744"]) simp_all

lemma rd_2: "b64 (1 / 4) = Fin (1 / 4)"
  by (rule b64_eval [where n = 54 and m = "4503599627370496"]) simp_all

lemma rd_3: "b64 (9 / 20) = Fin (8106479329266893 / 18014398509481984)"
  by (rule b64_eval [where n = 54 and m = "8106479329266893"]) simp_all

lemma rd_4: "b64 (7 / 20) = Fin (3152519739159347 / 9007199254740992)"
  by (rule b64_eval [where n = 54 and m = "6305039478318694"]) simp_all

lemma rd_5: "b64 (1 / 5) = Fin (3602879701896397 / 18014398509481984)"
  by (rule b64_eval [where n = 55 and m = "7205759403792794"]) simp_all

lemma rd_6: "b64 (9 / 50) = Fin (3242591731706757 / 18014398509481984)"
  by (rule b64_eval [where n = 55 and m = "6485183463413514"]) simp_all

lemma rd_7: "b64 (9 / 25) = Fin (3242591731706757 / 9007199254740992)"
  by (rule b64_eval [where n = 54 and m = "6485183463413514"]) simp_all

lemma rd_8: "b64 (9938380705789317246726257466409 / 81129638414606681695789005144064) = Fin (8827055269646171 / 72057594037927936)"
  by (rule b64_eval [where n = 56 and m = "8827055269646171"]) simp_all

lemma rd_9: "b64 (8827055269646171 / 72057594037927936) = Fin (8827055269646171 / 72057594037927936)"
  by (rule b64_eval [where n = 56 and m = "8827055269646171"]) simp_all

lemma rd_10: "b64 (12980742146337070512478121581609 / 324518553658426726783156020576256) = Fin (1441151880758559 / 36028797018963968)"
  by (rule b64_eval [where n = 57 and m = "5764607523034236"]) simp_all

lemma rd_11: "b64 (11709359031163289 / 72057594037927936) = Fin (1463669878895411 / 9007199254740992)"
  by (rule b64_tie [where n = 55 and m = "5854679515581644"]) simp_all

lemma rd_12: "b64 (36591746972385275 / 2251799813685248) = Fin (4573968371548159 / 281474976710656)"
  by (rule b64_eval [where n = 48 and m = "4573968371548159"]) simp_all

lemma rd_13: "b64 (78812993478983675 / 2251799813685248) = Fin (35)"
  by (rule b64_eval [where n = 47 and m = "4925812092436480"]) simp_all

lemma rd_14: "b64 (90071992547409925 / 4503599627370496) = Fin (20)"
  by (rule b64_eval [where n = 48 and m = "5629499534213120"]) simp_all

lemma rd_15: "b64 (3 / 5) = Fin (5404319552844595 / 9007199254740992)"
  by (rule b64_eval [where n = 53 and m = "5404319552844595"]) simp_all

lemma rd_16: "b64 (5404319552844595 / 9007199254740992) = Fin (5404319552844595 / 9007199254740992)"
  by (rule b64_eval [where n = 53 and m = "5404319552844595"]) simp_all

lemma rd_17: "b64 (5404319552844595 / 4503599627370496) = Fin (5404319552844595 / 4503599627370496)"
  by (rule b64_eval [where n = 52 and m = "5404319552844595"]) simp_all

lemma rd_18: "b64 (16212958658533785 / 9007199254740992) = Fin (2026619832316723 / 1125899906842624)"
  by (rule b64_tie [where n = 52 and m = "8106479329266892"]) simp_all

lemma rd_19: "b64 (21617278211378379 / 9007199254740992) = Fin (5404319552844595 / 2251799813685248)"
  by (rule b64_eval [where n = 51 and m = "5404319552844595"]) simp_all

lemma rd_20: "b64 (27021597764222975 / 9007199254740992) = Fin (3)"
  by (rule b64_eval [where n = 51 and m = "6755399441055744"]) simp_all

lemma rd_21: "b64 (32425917317067571 / 9007199254740992) = Fin (8106479329266893 / 2251799813685248)"
  by (rule b64_eval [where n = 51 and m = "8106479329266893"]) simp_all

lemma rd_22: "b64 (37830236869912167 / 9007199254740992) = Fin (4728779608739021 / 1125899906842624)"
  by (rule b64_eval [where n = 50 and m = "4728779608739021"]) simp_all

lemma rd_23: "b64 (43234556422756763 / 9007199254740992) = Fin (5404319552844595 / 1125899906842624)"
  by (rule b64_eval [where n = 50 and m = "5404319552844595"]) simp_all

lemma rd_24: "b64 (48638875975601355 / 9007199254740992) = Fin (6079859496950169 / 1125899906842624)"
  by (rule b64_eval [where n = 50 and m = "6079859496950169"]) simp_all

lemma rd_25: "b64 (54043195528445947 / 9007199254740992) = Fin (6755399441055743 / 1125899906842624)"
  by (rule b64_eval [where n = 50 and m = "6755399441055743"]) simp_all

lemma rd_26: "b64 (6755399441055743 / 11258999068426240) = Fin (2702159776422297 / 4503599627370496)"
  by (rule b64_eval [where n = 53 and m = "5404319552844594"]) simp_all

lemma rd_27: "b64 (8106479329266891 / 18014398509481984) = Fin (8106479329266891 / 18014398509481984)"
  by (rule b64_eval [where n = 54 and m = "8106479329266891"]) simp_all

lemma rd_28: "b64 (5404319552844595 / 36028797018963968) = Fin (5404319552844595 / 36028797018963968)"
  by (rule b64_eval [where n = 55 and m = "5404319552844595"]) simp_all

lemma rd_29: "b64 (21617278211378377 / 36028797018963968) = Fin (2702159776422297 / 4503599627370496)"
  by (rule b64_eval [where n = 53 and m = "5404319552844594"]) simp_all

lemma rd_30: "b64 (200) = Fin (200)"
  by (rule b64_eval [where n = 45 and m = "7036874417766400"]) simp_all

lemma rd_31: "b64 (400) = Fin (400)"
  by (rule b64_eval [where n = 44 and m = "7036874417766400"]) simp_all

lemma rd_32: "b64 (600) = Fin (600)"
  by (rule b64_eval [where n = 43 and m = "5277655813324800"]) simp_all

lemma rd_33: "b64 (800) = Fin (800)"
  by (rule b64_eval [where n = 43 and m = "7036874417766400"]) simp_all

lemma rd_34: "b64 (1000) = Fin (1000)"
  by (rule b64_eval [where n = 43 and m = "8796093022208000"]) simp_all

lemma rd_35: "b64 (1200) = Fin (1200)"
  by (rule b64_eval [where n = 42 and m = "5277655813324800"]) simp_all

lemma rd_36: "b64 (1400) = Fin (1400)"
  by (rule b64_eval [where n = 42 and m = "6157265115545600"]) simp_all

lemma rd_37: "b64 (1600) = Fin (1600)"
  by (rule b64_eval [where n = 42 and m = "7036874417766400"]) simp_all

lemma rd_38: "b64 (1800) = Fin (1800)"
  by (rule b64_eval [where n = 42 and m = "7916483719987200"]) simp_all

lemma rd_39: "b64 (2000) = Fin (2000)"
  by (rule b64_eval [where n = 42 and m = "8796093022208000"]) simp_all

lemma rd_40: "b64 (- 15) = Fin (- 15)"
  by (rule b64_eval [where n = 49 and m = "- 8444249301319680"]) simp_all

lemma rd_41: "b64 (- (3 / 17)) = Fin (- (6358023003346583 / 36028797018963968))"
  by (rule b64_eval [where n = 55 and m = "- 6358023003346583"]) simp_all

lemma rd_42: "b64 (42386820022310551 / 36028797018963968) = Fin (5298352502788819 / 4503599627370496)"
  by (rule b64_eval [where n = 52 and m = "5298352502788819"]) simp_all

lemma rd_43: "b64 (1) = Fin (1)"
  by (rule b64_eval [where n = 52 and m = "4503599627370496"]) simp_all

lemma rd_44: "b64 (- (3242591731706757 / 18014398509481984)) = Fin (- (3242591731706757 / 18014398509481984))"
  by (rule b64_eval [where n = 55 and m = "- 6485183463413514"]) simp_all

lemma rd_45: "b64 (21905002371943799734407389113221 / 81129638414606681695789005144064) = Fin (4863887597560135 / 18014398509481984)"
  by (rule b64_eval [where n = 54 and m = "4863887597560135"]) simp_all

lemma rd_46: "b64 (3152519739159347 / 9007199254740992) = Fin (3152519739159347 / 9007199254740992)"
  by (rule b64_eval [where n = 54 and m = "6305039478318694"]) simp_all

lemma rd_47: "b64 (11168927075878829 / 18014398509481984) = Fin (2792231768969707 / 4503599627370496)"
  by (rule b64_tie [where n = 53 and m = "5584463537939414"]) simp_all

lemma rd_48: "b64 (2792231768969707 / 4503599627370496) = Fin (2792231768969707 / 4503599627370496)"
  by (rule b64_eval [where n = 53 and m = "5584463537939414"]) simp_all

lemma rd_49: "b64 (69805794224242675 / 1125899906842624) = Fin (4362862139015167 / 70368744177664)"
  by (rule b64_eval [where n = 47 and m = "8725724278030334"]) simp_all

lemma rd_50: "b64 (67553994410557425 / 1125899906842624) = Fin (4222124650659839 / 70368744177664)"
  by (rule b64_eval [where n = 47 and m = "8444249301319678"]) simp_all

lemma rd_51: "b64 (100) = Fin (100)"
  by (rule b64_eval [where n = 46 and m = "7036874417766400"]) simp_all

lemma rd_52: "b64 (1 / 2) = Fin (1 / 2)"
  by (rule b64_eval [where n = 53 and m = "4503599627370496"]) simp_all

lemma rd_53: "b64 (3 / 2) = Fin (3 / 2)"
  by (rule b64_eval [where n = 52 and m = "6755399441055744"]) simp_all

lemma rd_54: "b64 (2) = Fin (2)"
  by (rule b64_eval [where n = 51 and m = "4503599627370496"]) simp_all

lemma rd_55: "b64 (5 / 2) = Fin (5 / 2)"
  by (rule b64_eval [where n = 51 and m = "5629499534213120"]) simp_all

lemma rd_56: "b64 (3) = Fin (3)"
  by (rule b64_eval [where n = 51 and m = "6755399441055744"]) simp_all

lemma rd_57: "b64 (7 / 2) = Fin (7 / 2)"
  by (rule b64_eval [where n = 51 and m = "7881299347898368"]) simp_all

lemma rd_58: "b64 (4) = Fin (4)"
  by (rule b64_eval [where n = 50 and m = "4503599627370496"]) simp_all

lemma rd_59: "b64 (9 / 2) = Fin (9 / 2)"
  by (rule b64_eval [where n = 50 and m = "5066549580791808"]) simp_all

lemma rd_60: "b64 (5) = Fin (5)"
  by (rule b64_eval [where n = 50 and m = "5629499534213120"]) simp_all

lemma rd_61: "b64 (3 / 8) = Fin (3 / 8)"
  by (rule b64_eval [where n = 54 and m = "6755399441055744"]) simp_all

lemma rd_62: "b64 (1 / 8) = Fin (1 / 8)"
  by (rule b64_eval [where n = 55 and m = "4503599627370496"]) simp_all

lemma rd_63: "b64 (8106479329266893 / 36028797018963968) = Fin (8106479329266893 / 36028797018963968)"
  by (rule b64_eval [where n = 55 and m = "8106479329266893"]) simp_all

lemma rd_64: "b64 (20716558285904281 / 36028797018963968) = Fin (2589569785738035 / 4503599627370496)"
  by (rule b64_eval [where n = 53 and m = "5179139571476070"]) simp_all

lemma rd_65: "b64 (2589569785738035 / 4503599627370496) = Fin (2589569785738035 / 4503599627370496)"
  by (rule b64_eval [where n = 53 and m = "5179139571476070"]) simp_all

lemma rd_66: "b64 (64739244643450875 / 1125899906842624) = Fin (8092405580431359 / 140737488355328)"
  by (rule b64_eval [where n = 47 and m = "8092405580431359"]) simp_all

lemma rd_67: "b64 (50) = Fin (50)"
  by (rule b64_eval [where n = 47 and m = "7036874417766400"]) simp_all

lemma rd_68: "b64 (7 / 16) = Fin (7 / 16)"
  by (rule b64_eval [where n = 54 and m = "7881299347898368"]) simp_all

lemma rd_69: "b64 (9 / 8) = Fin (9 / 8)"
  by (rule b64_eval [where n = 52 and m = "5066549580791808"]) simp_all

lemma rd_70: "b64 (29 / 16) = Fin (29 / 16)"
  by (rule b64_eval [where n = 52 and m = "8162774324609024"]) simp_all

lemma rd_71: "b64 (51 / 16) = Fin (51 / 16)"
  by (rule b64_eval [where n = 51 and m = "7177611906121728"]) simp_all

lemma rd_72: "b64 (51 / 80) = Fin (2871044762448691 / 4503599627370496)"
  by (rule b64_eval [where n = 53 and m = "5742089524897382"]) simp_all

lemma rd_73: "b64 (8613134287346073 / 18014398509481984) = Fin (8613134287346073 / 18014398509481984)"
  by (rule b64_eval [where n = 54 and m = "8613134287346073"]) simp_all

lemma rd_74: "b64 (11 / 64) = Fin (11 / 64)"
  by (rule b64_eval [where n = 55 and m = "6192449487634432"]) simp_all

lemma rd_75: "b64 (11709359031163289 / 18014398509481984) = Fin (1463669878895411 / 2251799813685248)"
  by (rule b64_tie [where n = 53 and m = "5854679515581644"]) simp_all

lemma rd_76: "b64 (11865209618136225869447251928023 / 40564819207303340847894502572032) = Fin (658651445502935 / 2251799813685248)"
  by (rule b64_eval [where n = 54 and m = "5269211564023480"]) simp_all

lemma rd_77: "b64 (29903901525740091 / 72057594037927936) = Fin (7475975381435023 / 18014398509481984)"
  by (rule b64_eval [where n = 54 and m = "7475975381435023"]) simp_all

lemma rd_78: "b64 (16393102643628605 / 36028797018963968) = Fin (4098275660907151 / 9007199254740992)"
  by (rule b64_tie [where n = 54 and m = "8196551321814302"]) simp_all

lemma rd_79: "b64 (102456891522678775 / 2251799813685248) = Fin (6403555720167423 / 140737488355328)"
  by (rule b64_eval [where n = 47 and m = "6403555720167423"]) simp_all

lemma rd_80: "b64 (36591746972385275 / 562949953421312) = Fin (4573968371548159 / 70368744177664)"
  by (rule b64_eval [where n = 46 and m = "4573968371548159"]) simp_all

lemma rd_81: "b64 (3727654372632277 / 3518437208883200) = Fin (4771397596969315 / 4503599627370496)"
  by (rule b64_eval [where n = 52 and m = "4771397596969315"]) simp_all

lemma rd_82: "b64 (1 / 7) = Fin (2573485501354569 / 18014398509481984)"
  by (rule b64_eval [where n = 55 and m = "5146971002709138"]) simp_all

lemma rd_83: "b64 (- (167276557588047 / 4503599627370496)) = Fin (- (167276557588047 / 4503599627370496))"
  by (rule b64_eval [where n = 57 and m = "- 5352849842817504"]) simp_all

lemma rd_84: "b64 (223035410117396 / 1080863910568919) = Fin (7434513670579867 / 36028797018963968)"
  by (rule b64_eval [where n = 55 and m = "7434513670579867"]) simp_all

lemma rd_85: "b64 (28594283348384101 / 36028797018963968) = Fin (7148570837096025 / 9007199254740992)"
  by (rule b64_eval [where n = 53 and m = "7148570837096025"]) simp_all

lemma rd_86: "b64 (500) = Fin (500)"
  by (rule b64_eval [where n = 44 and m = "8796093022208000"]) simp_all

lemma rd_87: "b64 (900) = Fin (900)"
  by (rule b64_eval [where n = 43 and m = "7916483719987200"]) simp_all

lemma rd_88: "b64 (1300) = Fin (1300)"
  by (rule b64_eval [where n = 42 and m = "5717460464435200"]) simp_all

lemma rd_89: "b64 (- 100) = Fin (- 100)"
  by (rule b64_eval [where n = 46 and m = "- 7036874417766400"]) simp_all

lemma rd_90: "b64 (10000) = Fin (10000)"
  by (rule b64_eval [where n = 39 and m = "5497558138880000"]) simp_all

lemma rd_91: "b64 (20000) = Fin (20000)"
  by (rule b64_eval [where n = 38 and m = "5497558138880000"]) simp_all

lemma rd_92: "b64 (30000) = Fin (30000)"
  by (rule b64_eval [where n = 38 and m = "8246337208320000"]) simp_all

lemma rd_93: "b64 (40000) = Fin (40000)"
  by (rule b64_eval [where n = 37 and m = "5497558138880000"]) simp_all

lemma rd_94: "b64 (50000) = Fin (50000)"
  by (rule b64_eval [where n = 37 and m = "6871947673600000"]) simp_all

lemma rd_95: "b64 (60000) = Fin (60000)"
  by (rule b64_eval [where n = 37 and m = "8246337208320000"]) simp_all

lemma rd_96: "b64 (70000) = Fin (70000)"
  by (rule b64_eval [where n = 36 and m = "4810363371520000"]) simp_all

lemma rd_97: "b64 (80000) = Fin (80000)"
  by (rule b64_eval [where n = 36 and m = "5497558138880000"]) simp_all

lemma rd_98: "b64 (85) = Fin (85)"
  by (rule b64_eval [where n = 46 and m = "5981343255101440"]) simp_all

lemma rd_99: "b64 (3242591731706757 / 18014398509481984) = Fin (3242591731706757 / 18014398509481984)"
  by (rule b64_eval [where n = 55 and m = "6485183463413514"]) simp_all

lemmas roundings = rd_1 rd_2 rd_3 rd_4 rd_5 rd_6 rd_7 rd_8 rd_9 rd_10 rd_11 rd_12 rd_13 rd_14
  rd_15 rd_16 rd_17 rd_18 rd_19 rd_20 rd_21 rd_22 rd_23 rd_24 rd_25 rd_26 rd_27 rd_28 rd_29
  rd_30 rd_31 rd_32 rd_33 rd_34 rd_35 rd_36 rd_37 rd_38 rd_39 rd_40 rd_41 rd_42 rd_43 rd_44
  rd_45 rd_46 rd_47 rd_48 rd_49 rd_50 rd_51 rd_52 rd_53 rd_54 rd_55 rd_56 rd_57 rd_58 rd_59
  rd_60 rd_61 rd_62 rd_63 rd_64 rd_65 rd_66 rd_67 rd_68 rd_69 rd_70 rd_71 rd_72 rd_73 rd_74
  rd_75 rd_76 rd_77 rd_78 rd_79 rd_80 rd_81 rd_82 rd_83 rd_84 rd_85 rd_86 rd_87 rd_88 rd_89
  rd_90 rd_91 rd_92 rd_93 rd_94 rd_95 rd_96 rd_97 rd_98 rd_99

lemmas lits = lit_def roundings

lemma lit_values:
  "lit 0.75 = Fin (3 / 4)"
  "lit 0.25 = Fin (1 / 4)"
  "lit 0.45 = Fin (8106479329266893 / 18014398509481984)"
  "lit 0.35 = Fin (3152519739159347 / 9007199254740992)"
  "lit 0.2 = Fin (3602879701896397 / 18014398509481984)"
  "lit 0.20 = Fin (3602879701896397 / 18014398509481984)"
  "lit 0.18 = Fin (3242591731706757 / 18014398509481984)"
  "lit 0.36 = Fin (3242591731706757 / 9007199254740992)"
  by (simp_all add: lits)

text \<open>Rounding keeps a number a number, and a value that is not negative not negative.\<close>

lemma fsub_right_number: "x \<noteq> NaN \<Longrightarrow> fsub x (Fin c) \<noteq> NaN"
  by (cases x) (simp_all add: fsub_def jsub_def)

lemma fsub_left_number: "x \<noteq> NaN \<Longrightarrow> fsub (Fin c) x \<noteq> NaN"
  by (cases x) (simp_all add: fsub_def jsub_def)

lemma fdiv_number: "x \<noteq> NaN \<Longrightarrow> c \<noteq> 0 \<Longrightarrow> fdiv x (Fin c) \<noteq> NaN"
  by (cases x) (simp_all add: fdiv_def inf_of_def)

lemma jabs_number: "x \<noteq> NaN \<Longrightarrow> jabs x \<noteq> NaN"
  by (cases x) simp_all

lemma clamp01_number: "x \<noteq> NaN \<Longrightarrow> \<exists>r. clamp01 x = Fin r \<and> 0 \<le> r \<and> r \<le> 1"
  by (cases x) (simp_all add: clamp01_def)

lemma nonneg_b64: "0 \<le> a \<Longrightarrow> nonneg (b64 a)"
  by (cases "a = 0") (simp_all add: b64_def inf_of_def r64_nonneg)

lemma nonneg_rnd: "nonneg x \<Longrightarrow> nonneg (rnd x)"
  by (cases x) (simp_all add: nonneg_b64)

lemma nonneg_number: "nonneg x \<Longrightarrow> x \<noteq> NaN"
  by (cases x) simp_all

lemma nonneg_fadd: "nonneg x \<Longrightarrow> nonneg y \<Longrightarrow> nonneg (fadd x y)"
  by (simp add: fadd_def nonneg_rnd nonneg_jadd)

lemma nonneg_fmul: "nonneg x \<Longrightarrow> 0 < c \<Longrightarrow> nonneg (fmul x (Fin c))"
  by (cases x) (simp_all add: fmul_def inf_of_def nonneg_b64)

lemma nonneg_fdiv: "nonneg x \<Longrightarrow> 0 < n \<Longrightarrow> nonneg (fdiv x (Fin n))"
  by (simp add: fdiv_def nonneg_rnd nonneg_jdiv)

lemma nonneg_fsqrt: "nonneg x \<Longrightarrow> nonneg (fsqrt x)"
  by (simp add: fsqrt_def nonneg_rnd nonneg_jsqrt)

lemma nonneg_fpow2: "x \<noteq> NaN \<Longrightarrow> nonneg (fpow2 x)"
  by (simp add: fpow2_def fmul_def nonneg_rnd nonneg_square)

lemma nonneg_foldl_fadd: "nonneg acc \<Longrightarrow> list_all nonneg xs \<Longrightarrow> nonneg (foldl fadd acc xs)"
  by (induction xs arbitrary: acc) (simp_all add: nonneg_fadd)

lemma nonneg_jmax: "nonneg x \<Longrightarrow> nonneg y \<Longrightarrow> nonneg (jmax x y)"
  by (cases x; cases y) simp_all

lemma nonneg_foldl_jmax: "nonneg acc \<Longrightarrow> list_all nonneg xs \<Longrightarrow> nonneg (foldl jmax acc xs)"
  by (induction xs arbitrary: acc) (simp_all add: nonneg_jmax)

lemma nonneg_max_spread: "xs \<noteq> [] \<Longrightarrow> list_all nonneg xs \<Longrightarrow> nonneg (max_spread xs)"
proof (cases xs)
  case Nil
  assume "xs \<noteq> []"
  with Nil show ?thesis by simp
next
  case (Cons x rest)
  assume "list_all nonneg xs"
  then have x: "nonneg x" and r: "list_all nonneg rest" using Cons by simp_all
  from x have "nonneg (jmax NInf x)" by (cases x) simp_all
  then show ?thesis unfolding Cons max_spread_def using r by (simp add: nonneg_foldl_jmax)
qed

text \<open>Rounding a real of small magnitude gives a double within the same integer bounds.\<close>

lemma b64_within:
  assumes "\<bar>m\<bar> < 2 ^ 53" and "0 \<le> x" and "x \<le> of_int m"
  shows "\<exists>y. b64 x = Fin y \<and> 0 \<le> y \<and> y \<le> of_int m"
proof -
  have m: "(0::real) \<le> of_int m" using assms by linarith
  then have "m < 2 ^ 53" using assms(1) by simp
  then have "(of_int m :: real) < of_int (2 ^ 53)" by (simp only: of_int_less_iff)
  then have "\<bar>x\<bar> \<le> 2 ^ 52 * 2" using assms by simp
  have le: "r64 x \<le> of_int m"
    using r64_mono [OF assms(3)] r64_of_int [OF assms(1)] by simp
  have ge: "0 \<le> r64 x" using assms(2) by (rule r64_nonneg)
  have "\<bar>r64 x\<bar> < 2 ^ 1024"
  proof -
    have "\<bar>r64 x\<bar> \<le> of_int m" using le ge by simp
    also have "\<dots> < of_int (2 ^ 53)" using \<open>m < 2 ^ 53\<close> by (simp only: of_int_less_iff)
    also have "\<dots> < (2::real) ^ 1024" by simp
    finally show ?thesis .
  qed
  then have "b64 x = Fin (r64 x)" by (simp add: b64_def)
  then show ?thesis using le ge by simp
qed


lemma energyScore_range:
  assumes "list_all nonneg es"
  shows "\<exists>e. energyScore es = Fin e \<and> 0 \<le> e \<and> e \<le> 1"
proof (cases "es = []")
  case True
  then show ?thesis by (simp add: energyScore_def lits clamp01_Fin clamp01_r_def)
next
  case False
  then have n: "0 < real (length es)" by simp
  have "nonneg (fdiv (foldl fadd (Fin 0) es) (Fin (real (length es))))"
    using assms n by (intro nonneg_fdiv nonneg_foldl_fadd) simp_all
  then have a: "nonneg (fmul (fdiv (foldl fadd (Fin 0) es) (Fin (real (length es)))) (lit 0.75))"
    by (simp add: lits nonneg_fmul)
  have "nonneg (max_spread es)" using False assms by (rule nonneg_max_spread)
  then have p: "nonneg (fmul (max_spread es) (lit 0.25))"
    by (simp add: lits nonneg_fmul)
  from a p have "nonneg (fadd (fmul (fdiv (foldl fadd (Fin 0) es) (Fin (real (length es)))) (lit 0.75))
                              (fmul (max_spread es) (lit 0.25)))"
    by (rule nonneg_fadd)
  then show ?thesis using False by (simp add: energyScore_def Let_def clamp01_nonneg)
qed

lemma nonneg_foldl_var:
  "nonneg acc \<Longrightarrow> mean \<noteq> NaN
   \<Longrightarrow> nonneg (foldl (\<lambda>acc p. fadd acc (fpow2 (fsub p mean))) acc (map Fin rs))"
proof (induction rs arbitrary: acc)
  case Nil
  then show ?case by simp
next
  case (Cons r rs)
  have "fsub (Fin r) mean \<noteq> NaN" using Cons.prems(2) by (rule fsub_left_number)
  then have "nonneg (fadd acc (fpow2 (fsub (Fin r) mean)))"
    using Cons.prems(1) by (intro nonneg_fadd nonneg_fpow2)
  then show ?case using Cons by simp
qed

lemma stability64_range: "\<exists>s. computePitchStability64 ps = Fin s \<and> 0 \<le> s \<and> s \<le> 1"
proof (cases "length (cleaned ps) < 8")
  case True
  have "\<exists>s. lit 0.35 = Fin s \<and> 0 \<le> s \<and> s \<le> 1"
    by (intro exI [of _ "3152519739159347 / 9007199254740992"]) (simp add: lits)
  then show ?thesis using True by (simp add: computePitchStability64_def Let_def)
next
  case False
  then have l: "\<not> length ps < 8" using length_cleaned_r_le [of ps] by (simp add: cleaned_eq)
  define n where "n = real (length (cleaned ps))"
  have n: "0 < n" using False by (cases "cleaned ps") (simp_all add: n_def)
  define mean where "mean = fdiv (foldl fadd (Fin 0) (cleaned ps)) (Fin n)"
  have "list_all nonneg (cleaned ps)"
    using cleaned_r_range [of _ ps] by (fastforce simp: cleaned_eq list_all_iff)
  then have "nonneg mean" unfolding mean_def using n by (intro nonneg_fdiv nonneg_foldl_fadd) simp_all
  then have m: "mean \<noteq> NaN" by (rule nonneg_number)
  define std where
    "std = fsqrt (fdiv (foldl (\<lambda>acc p. fadd acc (fpow2 (fsub p mean))) (Fin 0) (cleaned ps)) (Fin n))"
  have "nonneg std" unfolding std_def cleaned_eq using m n
    by (intro nonneg_fsqrt nonneg_fdiv nonneg_foldl_var) simp_all
  then have "std \<noteq> NaN" by (rule nonneg_number)
  then have "fsub (Fin 1) (fdiv (fsub std (Fin 15)) (Fin 85)) \<noteq> NaN"
    by (intro fsub_left_number fdiv_number fsub_right_number) simp_all
  then have "\<exists>r. clamp01 (fsub (Fin 1) (fdiv (fsub std (Fin 15)) (Fin 85))) = Fin r \<and> 0 \<le> r \<and> r \<le> 1"
    by (rule clamp01_number)
  then show ?thesis using False l
    by (simp add: computePitchStability64_def Let_def std_def mean_def n_def)
qed


lemma variety_range: "\<exists>v. computePitchVariety ps = Fin v \<and> 0 \<le> v \<and> v \<le> 1"
proof (cases "length (cleaned ps) < 8")
  case True
  have "\<exists>s. lit 0.2 = Fin s \<and> 0 \<le> s \<and> s \<le> 1"
    by (intro exI [of _ "3602879701896397 / 18014398509481984"]) (simp add: lits)
  then show ?thesis using True by (simp add: computePitchVariety_def Let_def)
next
  case False
  then have l: "\<not> length ps < 8" using length_cleaned_r_le [of ps] by (simp add: cleaned_eq)
  define m where "m = fdiv (Fin (real (count_moves (cleaned ps) 0)))
                           (jmax (Fin 1) (Fin (real (length (cleaned ps)) - 1)))"
  have "m \<noteq> NaN" using False by (simp add: m_def)
  then have "fsub (Fin 1) (fdiv (jabs (fsub m (lit 0.18))) (lit 0.18)) \<noteq> NaN"
    unfolding lit_values by (intro fsub_left_number fdiv_number jabs_number fsub_right_number) simp_all
  then have "\<exists>r. clamp01 (fsub (Fin 1) (fdiv (jabs (fsub m (lit 0.18))) (lit 0.18))) = Fin r
                 \<and> 0 \<le> r \<and> r \<le> 1"
    by (rule clamp01_number)
  then show ?thesis using False l by (simp add: computePitchVariety_def Let_def m_def)
qed

text \<open>The final score is a whole number of percent unless the energy is \<open>NaN\<close>.\<close>

lemma weighted_within:
  assumes "0 \<le> x" "x \<le> 1" "0 \<le> c" "c \<le> 1"
  shows "\<exists>y. fmul (Fin x) (Fin c) = Fin y \<and> 0 \<le> y \<and> y \<le> 1"
proof -
  have "x * c \<le> 1 * 1" using assms by (intro mult_mono) simp_all
  then have "x * c \<le> of_int 1" by simp
  moreover have "0 \<le> x * c" using assms by simp
  ultimately have "\<exists>y. b64 (x * c) = Fin y \<and> 0 \<le> y \<and> y \<le> of_int 1"
    by (intro b64_within) simp_all
  then show ?thesis by simp
qed

lemma score_range:
  assumes "energyScore es = Fin e" and "0 \<le> e" and "e \<le> 1"
  shows "\<exists>k. ScoreBreakdown.score (computeScore es ps) = Fin (of_int k) \<and> 0 \<le> k \<and> k \<le> 100"
proof -
  obtain s where s: "computePitchStability64 ps = Fin s" "0 \<le> s" "s \<le> 1"
    using stability64_range by blast
  obtain v where v: "computePitchVariety ps = Fin v" "0 \<le> v" "v \<le> 1"
    using variety_range by blast
  obtain a where a: "fmul (Fin e) (lit 0.45) = Fin a" "0 \<le> a" "a \<le> 1"
    unfolding lit_values using weighted_within [OF assms(2,3), of "8106479329266893 / 18014398509481984"]
    by auto
  obtain b where b: "fmul (Fin s) (lit 0.35) = Fin b" "0 \<le> b" "b \<le> 1"
    unfolding lit_values using weighted_within [OF s(2,3), of "3152519739159347 / 9007199254740992"]
    by auto
  obtain c where c: "fmul (Fin v) (lit 0.20) = Fin c" "0 \<le> c" "c \<le> 1"
    unfolding lit_values using weighted_within [OF v(2,3), of "3602879701896397 / 18014398509481984"]
    by auto
  have "\<exists>y. b64 (a + b) = Fin y \<and> 0 \<le> y \<and> y \<le> of_int 2"
    using a b by (intro b64_within) simp_all
  then obtain ab where ab: "fadd (Fin a) (Fin b) = Fin ab" "0 \<le> ab" "ab \<le> 2"
    by auto
  have "\<exists>y. b64 (ab + c) = Fin y \<and> 0 \<le> y \<and> y \<le> of_int 3"
    using ab c by (intro b64_within) simp_all
  then obtain raw where raw: "fadd (Fin ab) (Fin c) = Fin raw" "0 \<le> raw"
    by auto
  have cl: "0 \<le> clamp01_r raw" "clamp01_r raw \<le> 1" by (rule clamp01_r_bounds)+
  have "\<exists>y. b64 (clamp01_r raw * 100) = Fin y \<and> 0 \<le> y \<and> y \<le> of_int 100"
    using cl by (intro b64_within) simp_all
  then obtain t where t: "fmul (Fin (clamp01_r raw)) (Fin 100) = Fin t" "0 \<le> t" "t \<le> 100"
    by auto
  have sc: "ScoreBreakdown.score (computeScore es ps) = Fin (of_int \<lfloor>t + 1 / 2\<rfloor>)"
    unfolding computeScore_def Let_def assms(1) s(1) v(1) a(1) b(1) c(1) ab(1) raw(1)
      clamp01_Fin t(1) by simp
  have "0 \<le> \<lfloor>t + 1 / 2\<rfloor>" using t(2) by simp
  moreover have "\<lfloor>t + 1 / 2\<rfloor> \<le> 100" using t(3) by (simp add: floor_le_iff)
  ultimately show ?thesis using sc by blast
qed

lemma round_score_number:
  "list_all nonneg es \<Longrightarrow> ScoreBreakdown.score (computeScore es ps) \<noteq> NaN"
proof -
  assume "list_all nonneg es"
  then obtain e where "energyScore es = Fin e" "0 \<le> e" "e \<le> 1"
    using energyScore_range by blast
  then obtain k where "ScoreBreakdown.score (computeScore es ps) = Fin (of_int k)"
    using score_range by blast
  then show ?thesis by simp
qed


text \<open>The loop of \<open>computePitchVariety\<close> counts the semitone moves of the specification.\<close>

lemma ratio_Fin: "ratio (Fin a) (Fin b) = larger_smaller (Fin a) (Fin b)"
  by (simp add: ratio_def larger_smaller_def jgt_def del: fdiv_Fin)

lemma semitone_moves_Cons2:
  "semitone_moves (a # b # rest) =
     (if jge (larger_smaller a b) semitone then 1 else 0) + semitone_moves (b # rest)"
  by (simp add: semitone_moves_def)

lemma count_moves_Fin: "count_moves (map Fin rs) k = k + semitone_moves (map Fin rs)"
proof (induction rs arbitrary: k)
  case Nil
  show ?case by (simp add: semitone_moves_def)
next
  case (Cons a rs)
  show ?case
  proof (cases rs)
    case Nil
    then show ?thesis by (simp add: semitone_moves_def)
  next
    case (Cons b rest)
    have ih: "\<And>k. count_moves (Fin b # map Fin rest) k = k + semitone_moves (Fin b # map Fin rest)"
      using Cons.IH Cons by simp
    show ?thesis
      unfolding Cons list.map count_moves.simps ih semitone_moves_Cons2 ratio_Fin by simp
  qed
qed


lemma variety_refines:
  "computePitchVariety ps =
     (if length (cleaned ps) < 8 then lit 0.2 else reward (moveRate (cleaned ps)))"
proof (cases "length (cleaned ps) < 8")
  case True
  then show ?thesis by (simp add: computePitchVariety_def Let_def)
next
  case False
  then have l: "\<not> length ps < 8" using length_cleaned_r_le [of ps] by (simp add: cleaned_eq)
  have mx: "jmax (Fin 1) (Fin (real (length (cleaned ps)) - 1)) = Fin (real (length (cleaned ps) - 1))"
    using False by (simp add: of_nat_diff)
  have cm: "count_moves (cleaned ps) 0 = semitone_moves (cleaned ps)"
    unfolding cleaned_eq count_moves_Fin by simp
  show ?thesis
    using False l unfolding computePitchVariety_def Let_def mx cm reward_def moveRate_def by simp
qed













text \<open>\<open>semitone\<close> is the double nearest to the twelfth root of 2.\<close>

lemma root12_power: "(2 powr (1 / 12)) ^ 12 = (2::real)"
proof -
  have "(2 powr (1 / 12)) ^ 12 = ((2::real) powr (1 / 12)) powr real 12"
    by (simp only: powr_realpow [symmetric] powr_gt_zero)
  also have "\<dots> = 2" by (simp add: powr_powr)
  finally show ?thesis .
qed

lemma root12_less: "q ^ 12 < 2 \<Longrightarrow> q < (2::real) powr (1 / 12)"
proof (rule ccontr)
  assume q: "q ^ 12 < 2" and "\<not> q < 2 powr (1 / 12)"
  then have "2 powr (1 / 12) \<le> q" by simp
  then have "(2 powr (1 / 12)) ^ 12 \<le> q ^ 12" by (intro power_mono) simp_all
  then show False using q by (simp add: root12_power)
qed

lemma root12_greater: "0 \<le> q \<Longrightarrow> 2 < q ^ 12 \<Longrightarrow> (2::real) powr (1 / 12) < q"
proof (rule ccontr)
  assume q: "0 \<le> q" "2 < q ^ 12" and "\<not> 2 powr (1 / 12) < q"
  then have "q \<le> 2 powr (1 / 12)" by simp
  then have "q ^ 12 \<le> (2 powr (1 / 12)) ^ 12" using q(1) by (intro power_mono) simp_all
  then show False using q by (simp add: root12_power)
qed

lemma semitone_nearest: "b64 (2 powr (1 / 12)) = semitone"
proof -
  have lo: "9542795193938629 / 2 ^ 53 < (2::real) powr (1 / 12)"
    by (rule root12_less) (simp add: power_divide)
  have hi: "(2::real) powr (1 / 12) < 9542795193938631 / 2 ^ 53"
    by (rule root12_greater) (simp_all add: power_divide)
  show ?thesis
    unfolding semitone_def using lo hi
    by (intro b64_eval [where n = 52 and m = 4771397596969315]) (simp_all add: abs_if)
qed

text \<open>Rounds scored in the arithmetic of the code.\<close>

lemma replicate_10: "replicate 10 x = [x, x, x, x, x, x, x, x, x, x]"
  by (simp add: eval_nat_numeral)

lemmas score_defs = computeScore_def energyScore_def computePitchStability64_def
  computePitchVariety_def cleaned_def jge_def jgt_def max_spread_def fpow2_def fsqrt_def
  ratio_def semitone_def clamp01_Fin clamp01_r_def lit_def Let_def

lemma empty_score:
  "computeScore [] [] =
     \<lparr> ScoreBreakdown.score = Fin 16, ScoreBreakdown.energy = Fin 0,
       ScoreBreakdown.stability = Fin 35, ScoreBreakdown.variety = Fin 20 \<rparr>"
  by (simp add: score_defs roundings)


text \<open>
  Two rounds on which the rounding of the doubles decides the integer: the weighted sums
  are 0.575 and 0.455 over the reals, which would round to 58 and 46.
\<close>

lemma half_score:
  "computeScore (replicate 10 (Fin 0.5)) (replicate 10 (Fin 200)) =
     \<lparr> ScoreBreakdown.score = Fin 57, ScoreBreakdown.energy = Fin 50,
       ScoreBreakdown.stability = Fin 100, ScoreBreakdown.variety = Fin 0 \<rparr>"
  by (simp add: score_defs replicate_10 roundings)

lemma soft_score:
  "computeScore [Fin 0.4375, Fin 0.6875, Fin 0.6875, Fin 0.6875, Fin 0.6875] [] =
     \<lparr> ScoreBreakdown.score = Fin 45, ScoreBreakdown.energy = Fin 65,
       ScoreBreakdown.stability = Fin 35, ScoreBreakdown.variety = Fin 20 \<rparr>"
  by (simp add: score_defs roundings)

text \<open>
  On the steady and the swinging round the stability in doubles is the one over the reals.
\<close>

lemma sqrt_10000: "sqrt 10000 = 100"
  using real_sqrt_abs [of 100] by simp

lemma stability64_samples:
  "computePitchStability64 steady8 = Fin 1 \<and> computePitchStability64 swing8 = Fin 0"
  by (simp add: steady8_def swing8_def score_defs eval_nat_numeral sqrt_10000 roundings)




text \<open>
  Claim C6. Scoring two empty sample sequences returns a defined breakdown: energy 0,
  stability 35, variety 20 and final score 16, all four within \<open>[0, 100]\<close>.
\<close>

theorem empty_round_score:
  "computeScore [] [] =
     \<lparr> ScoreBreakdown.score = Fin 16, ScoreBreakdown.energy = Fin 0,
       ScoreBreakdown.stability = Fin 35, ScoreBreakdown.variety = Fin 20 \<rparr>
   \<and> jle (Fin 0) (ScoreBreakdown.score (computeScore [] []))
   \<and> jle (ScoreBreakdown.score (computeScore [] [])) (Fin 100)
   \<and> jle (Fin 0) (ScoreBreakdown.energy (computeScore [] []))
   \<and> jle (ScoreBreakdown.energy (computeScore [] [])) (Fin 100)
   \<and> jle (Fin 0) (ScoreBreakdown.stability (computeScore [] []))
   \<and> jle (ScoreBreakdown.stability (computeScore [] [])) (Fin 100)
   \<and> jle (Fin 0) (ScoreBreakdown.variety (computeScore [] []))
   \<and> jle (ScoreBreakdown.variety (computeScore [] [])) (Fin 100)"
  by (simp add: empty_score)
















text \<open>
  A ratio below the twelfth root of 2 that counts as a move: the division of the doubles
  rounds it up to \<open>semitone\<close>.
\<close>

lemma near_semitone_ratio:
  "(3727654372632277 / 2 ^ 44) / 200 < (2::real) powr (1 / 12)
   \<and> ratio (Fin 200) (Fin (3727654372632277 / 2 ^ 44)) = semitone"
proof
  show "(3727654372632277 / 2 ^ 44) / 200 < (2::real) powr (1 / 12)"
    by (rule root12_less) (simp add: power_divide)
  show "ratio (Fin 200) (Fin (3727654372632277 / 2 ^ 44)) = semitone"
    by (simp add: ratio_def jgt_def semitone_def roundings)
qed

lemma near_semitone_variety:
  "count_moves (cleaned near_semitone8) 0 = 1
   \<and> computePitchVariety near_semitone8 = Fin (7148570837096025 / 9007199254740992)"
  by (simp add: near_semitone8_def score_defs eval_nat_numeral roundings)



section \<open>Facts about frame analysis\<close>

lemma jadd_NaN_right [simp]: "jadd x NaN = NaN"
  by (cases x) simp_all

lemma jmul_NaN_right [simp]: "jmul x NaN = NaN"
  by (cases x) simp_all

lemma jsub_NaN_right [simp]: "jsub x NaN = NaN"
  by (simp add: jsub_def)

lemma jlt_NaN_right [simp]: "jlt x NaN = False"
  by (cases x) simp_all

lemma foldl_sq_NaN: "foldl (\<lambda>sum v. jadd sum (jmul v v)) NaN buf = NaN"
  by (induction buf) simp_all

lemma foldl_sq_poisoned:
  "NaN \<in> set buf \<Longrightarrow> foldl (\<lambda>sum v. jadd sum (jmul v v)) acc buf = NaN"
proof (induction buf arbitrary: acc)
  case Nil
  then show ?case by simp
next
  case (Cons v buf)
  show ?case
  proof (cases "v = NaN")
    case True
    then show ?thesis by (simp add: foldl_sq_NaN)
  next
    case False
    with Cons show ?thesis by simp
  qed
qed

lemma foldl_jadd_NaN: "foldl jadd NaN buf = NaN"
  by (induction buf) simp_all

lemma foldl_jadd_poisoned: "NaN \<in> set buf \<Longrightarrow> foldl jadd acc buf = NaN"
proof (induction buf arbitrary: acc)
  case Nil
  then show ?case by simp
next
  case (Cons v buf)
  show ?case
  proof (cases "v = NaN")
    case True
    then show ?thesis by (simp add: foldl_jadd_NaN)
  next
    case False
    with Cons show ?thesis by simp
  qed
qed

lemma rms_degenerate: "buf = [] \<or> NaN \<in> set buf \<Longrightarrow> rms_of buf = NaN"
  by (auto simp: rms_of_def sum_squares_def foldl_sq_poisoned inf_of_def)

lemma mean_degenerate:
  "buf = [] \<or> NaN \<in> set buf \<Longrightarrow> jdiv (foldl jadd (Fin 0) buf) (Fin (real (length buf))) = NaN"
  by (auto simp: foldl_jadd_poisoned inf_of_def)

lemma foldl_const_NaN: "foldl (\<lambda>corr i. NaN) acc is = (if is = [] then acc else NaN)"
proof (induction "is" arbitrary: acc)
  case Nil
  show ?case by simp
next
  case (Cons i "is")
  show ?case by (simp add: Cons.IH)
qed

lemma corr_at_NaN_mean: "corr_at buf NaN lag = Fin 0 \<or> corr_at buf NaN lag = NaN"
  by (simp add: corr_at_def foldl_const_NaN)

lemma lag_loop_NaN_mean: "lag_loop buf NaN lag maxLag bestLag (Fin 0) = (bestLag, Fin 0)"
proof (induction buf "NaN :: jsnum" lag maxLag bestLag "Fin 0 :: jsnum" rule: lag_loop.induct)
  case (1 buf lag maxLag bestLag)
  have no: "\<not> jgt (corr_at buf NaN lag) (Fin 0)"
    using corr_at_NaN_mean [of buf lag] by (auto simp: jgt_def)
  show ?case
  proof (cases "lag \<le> maxLag")
    case True
    with no 1 show ?thesis
      by (subst lag_loop.simps) (simp add: Let_def)
  next
    case False
    then show ?thesis by (subst lag_loop.simps) simp
  qed
qed

lemma pitch_degenerate: "buf = [] \<or> NaN \<in> set buf \<Longrightarrow> estimatePitchHz buf sampleRate = None"
  by (simp add: estimatePitchHz_def rms_degenerate mean_degenerate lag_loop_NaN_mean Let_def)

lemma nonneg_foldl_sq:
  "NaN \<notin> set buf \<Longrightarrow> nonneg acc \<Longrightarrow> nonneg (foldl (\<lambda>sum v. jadd sum (jmul v v)) acc buf)"
proof (induction buf arbitrary: acc)
  case Nil
  then show ?case by simp
next
  case (Cons v buf)
  then have "v \<noteq> NaN" by auto
  with Cons.prems have "nonneg (jadd acc (jmul v v))"
    by (simp add: nonneg_jadd nonneg_square)
  with Cons show ?case by simp
qed

lemma nonneg_gain: "nonneg x \<Longrightarrow> nonneg (jmul x (Fin 4))"
  by (cases x) (simp_all add: inf_of_def)

lemma nonneg_rms: "buf \<noteq> [] \<Longrightarrow> NaN \<notin> set buf \<Longrightarrow> nonneg (rms_of buf)"
  unfolding rms_of_def sum_squares_def
  by (intro nonneg_jsqrt nonneg_jdiv nonneg_foldl_sq) simp_all

lemma energy_in_unit_interval:
  "buf \<noteq> [] \<Longrightarrow> NaN \<notin> set buf \<Longrightarrow>
     \<exists>r. clamp01 (jmul (rms_of buf) (Fin 4.0)) = Fin r \<and> 0 \<le> r \<and> r \<le> 1"
  using clamp01_nonneg [OF nonneg_gain [OF nonneg_rms]] by simp

lemma sum_squares_zeros: "foldl (\<lambda>sum v. jadd sum (jmul v v)) (Fin 0) (replicate n (Fin 0)) = Fin 0"
  by (induction n) simp_all

lemma rms_silent: "rms_of silent2048 = Fin 0"
  by (simp add: rms_of_def sum_squares_def silent2048_def sum_squares_zeros)

lemma pitch_silent: "estimatePitchHz silent2048 r = None"
  by (simp add: estimatePitchHz_def rms_silent)

lemma mic_on_eq:
  "mic_on = (init [] [] None)\<lparr> stage := ready, energy := Fin 0, mediaStream := True,
       audioCtx := Some 44100, analyser := True, timeData := Some silent2048, rafId := Some 1 \<rparr>"
  by (simp add: mic_on_def enableMic_def loop_def rms_silent pitch_silent init_def clamp01_Fin
      clamp01_r_def Let_def)

lemma nan_in_nan2048: "NaN \<in> set nan2048"
  by (simp add: nan2048_def)

text \<open>
  Claim C2. A degenerate frame should give the silent measurement \<open>{energy: 0, pitchHz: null}\<close>.
  The pitch is \<open>null\<close>, but \<open>loop\<close> stores the energy \<open>NaN\<close> for a frame of \<open>NaN\<close> samples
  and for an empty frame, and during a round that \<open>NaN\<close> is appended to the energy samples.
\<close>

theorem degenerate_frame_energy_nan:
  "AppComponent.energy (loop nan2048 2 mic_on) = NaN
   \<and> pitchHz (loop nan2048 2 mic_on) = None
   \<and> AppComponent.energy (loop [] 2 mic_on) = NaN
   \<and> pitchHz (loop [] 2 mic_on) = None
   \<and> energySamples (loop nan2048 2 (startRound 1 mic_on)) = [NaN]"
  using nan_in_nan2048
  by (simp add: loop_def startRound_def mic_on_eq init_def rms_degenerate pitch_degenerate
      clamp01_NaN Let_def)

text \<open>The analysis did run there: the guard of \<open>loop\<close> is passed, and the energy is not 0.\<close>

theorem degenerate_frame_energy_nan_witness:
  "analyser mic_on \<and> timeData mic_on \<noteq> None
   \<and> AppComponent.energy (loop nan2048 2 mic_on) \<noteq> Fin 0
   \<and> AppComponent.energy (loop [] 2 mic_on) \<noteq> Fin 0"
  using degenerate_frame_energy_nan by (simp add: mic_on_eq init_def)

text \<open>
  Claim C3. The energy of a frame should lie in \<open>[0, 1]\<close>. For a clipping frame with one
  \<open>NaN\<close> sample \<open>loop\<close> stores \<open>NaN\<close>, which is neither at least 0 nor at most 1. (For a
  frame that is not empty and has no \<open>NaN\<close> sample the energy is in \<open>[0, 1]\<close>:
  \<open>energy_in_unit_interval\<close>.)
\<close>

theorem clipped_nan_energy_outside:
  "AppComponent.energy (loop clipped_nan 2 mic_on) = NaN
   \<and> \<not> jle (Fin 0) (AppComponent.energy (loop clipped_nan 2 mic_on))
   \<and> \<not> jle (AppComponent.energy (loop clipped_nan 2 mic_on)) (Fin 1)"
proof -
  have "NaN \<in> set clipped_nan" by (simp add: clipped_nan_def)
  then have "AppComponent.energy (loop clipped_nan 2 mic_on) = NaN"
    by (simp add: loop_def mic_on_eq init_def rms_degenerate clamp01_NaN Let_def)
  then show ?thesis by simp
qed

text \<open>The guard of \<open>loop\<close> is passed there as well.\<close>

theorem clipped_nan_energy_outside_witness:
  "analyser mic_on \<and> timeData mic_on \<noteq> None
   \<and> \<not> (jle (Fin 0) (AppComponent.energy (loop clipped_nan 2 mic_on))
          \<and> jle (AppComponent.energy (loop clipped_nan 2 mic_on)) (Fin 1))"
  using clipped_nan_energy_outside by (simp add: mic_on_eq init_def)

lemma lag_loop_range:
  "lag_loop buf mean lag maxLag bestLag bestCorr = (bl, bc) \<Longrightarrow>
     bl = bestLag \<or> (lag \<le> bl \<and> bl \<le> maxLag)"
proof (induction buf mean lag maxLag bestLag bestCorr rule: lag_loop.induct)
  case (1 buf mean lag maxLag bestLag bestCorr)
  show ?case
  proof (cases "lag \<le> maxLag")
    case False
    with "1.prems" show ?thesis
      by (subst (asm) lag_loop.simps) simp
  next
    case True
    show ?thesis
    proof (cases "jgt (corr_at buf mean lag) bestCorr")
      case better: True
      with True "1.prems"
      have "lag_loop buf mean (lag + 1) maxLag lag (corr_at buf mean lag) = (bl, bc)"
        by (subst (asm) lag_loop.simps) (simp add: Let_def)
      with "1.IH"(1) [OF True refl better] True show ?thesis by auto
    next
      case worse: False
      with True "1.prems"
      have "lag_loop buf mean (lag + 1) maxLag bestLag bestCorr = (bl, bc)"
        by (subst (asm) lag_loop.simps) (simp add: Let_def)
      with "1.IH"(2) [OF True refl worse] show ?thesis by auto
    qed
  qed
qed

lemma estimate_lag:
  assumes "estimatePitchHz buf sampleRate = Some hz"
  shows "\<exists>lag. \<lfloor>sampleRate / 800\<rfloor> \<le> lag \<and> lag \<le> \<lfloor>sampleRate / 80\<rfloor> \<and> 0 < lag
           \<and> hz = Fin (sampleRate / of_int lag) \<and> 80 \<le> sampleRate / of_int lag"
proof -
  obtain bl bc where r: "lag_loop buf (jdiv (foldl jadd (Fin 0) buf) (Fin (real (length buf))))
      \<lfloor>sampleRate / 800\<rfloor> \<lfloor>sampleRate / 80\<rfloor> (- 1) (Fin 0) = (bl, bc)"
    by (cases "lag_loop buf (jdiv (foldl jadd (Fin 0) buf) (Fin (real (length buf))))
      \<lfloor>sampleRate / 800\<rfloor> \<lfloor>sampleRate / 80\<rfloor> (- 1) (Fin 0)") auto
  from assms r have pos: "0 < bl" and hz: "hz = Fin (sampleRate / of_int bl)"
    by (auto simp: estimatePitchHz_def Let_def split: if_splits)
  from lag_loop_range [OF r] pos have rng: "\<lfloor>sampleRate / 800\<rfloor> \<le> bl" "bl \<le> \<lfloor>sampleRate / 80\<rfloor>"
    by auto
  from rng(2) have "of_int bl \<le> sampleRate / 80"
    by (simp add: le_floor_iff)
  then have "80 * of_int bl \<le> sampleRate" by simp
  with pos have "80 \<le> sampleRate / of_int bl"
    by (simp add: pos_le_divide_eq)
  with pos hz rng show ?thesis by blast
qed

lemma corr_at_beyond: "int (length buf) \<le> lag \<Longrightarrow> corr_at buf mean lag = Fin 0"
  by (simp add: corr_at_def)

lemma lag_loop_beyond:
  "int (length buf) \<le> lag \<Longrightarrow> 0 \<le> c \<Longrightarrow> lag_loop buf mean lag maxLag bestLag (Fin c) = (bestLag, Fin c)"
proof (induction buf mean lag maxLag bestLag "Fin c" rule: lag_loop.induct)
  case (1 buf mean lag maxLag bestLag)
  show ?case
  proof (cases "lag \<le> maxLag")
    case False
    then show ?thesis by (subst lag_loop.simps) simp
  next
    case True
    have no: "\<not> jgt (corr_at buf mean lag) (Fin c)"
      using "1.prems" by (simp add: corr_at_beyond jgt_def)
    have "lag_loop buf mean (lag + 1) maxLag bestLag (Fin c) = (bestLag, Fin c)"
      using "1.hyps"(2) [OF True refl no] "1.prems" by simp
    with True no show ?thesis
      by (subst lag_loop.simps) (simp add: Let_def)
  qed
qed

lemma foldl_sq_Fin:
  "foldl (\<lambda>sum v. jadd sum (jmul v v)) (Fin a) (map Fin rs) = Fin (a + (\<Sum>r\<leftarrow>rs. r * r))"
  by (induction rs arbitrary: a) (simp_all add: add.assoc)

lemma pulse56_map: "pulse56 = map Fin (1 # replicate 54 0 @ [1])"
  by (simp add: pulse56_def)

lemma length_pulse56: "length pulse56 = 56"
  by (simp add: pulse56_def)

lemma rms_pulse56: "rms_of pulse56 = Fin (sqrt (1 / 28))"
proof -
  have "(\<Sum>r\<leftarrow>1 # replicate 54 0 @ [1]. r * r) = (2::real)"
    by (simp add: sum_list_replicate)
  then have "sum_squares pulse56 = Fin 2"
    unfolding sum_squares_def pulse56_map foldl_sq_Fin by simp
  then show ?thesis
    by (simp add: rms_of_def length_pulse56)
qed

lemma mean_pulse56: "jdiv (foldl jadd (Fin 0) pulse56) (Fin (real (length pulse56))) = Fin (1 / 28)"
proof -
  have "sum_list (1 # replicate 54 0 @ [1]) = (2::real)"
    by (simp add: sum_list_replicate)
  then have "foldl jadd (Fin 0) pulse56 = Fin 2"
    unfolding pulse56_map foldl_jadd_Fin by simp
  then show ?thesis
    by (simp add: length_pulse56)
qed

lemma loud_pulse56: "\<not> sqrt (1 / 28) < (0.015 :: real)"
proof -
  have "(0.015 :: real)\<^sup>2 \<le> 1 / 28"
    by (simp add: power2_eq_square)
  then have "(0.015 :: real) \<le> sqrt (1 / 28)"
    by (rule real_le_rsqrt)
  then show ?thesis by simp
qed

lemma corr_pulse56: "corr_at pulse56 (Fin (1 / 28)) 55 = Fin (729 / 784)"
  by (simp add: corr_at_def length_pulse56 sample_at_def)
     (simp add: pulse56_def nth_append)

lemma lags_pulse56: "lag_loop pulse56 (Fin (1 / 28)) 55 551 (- 1) (Fin 0) = (55, Fin (729 / 784))"
proof -
  have "lag_loop pulse56 (Fin (1 / 28)) 55 551 (- 1) (Fin 0)
          = lag_loop pulse56 (Fin (1 / 28)) 56 551 55 (Fin (729 / 784))"
    by (subst lag_loop.simps) (simp add: corr_pulse56 jgt_def)
  also have "\<dots> = (55, Fin (729 / 784))"
    by (rule lag_loop_beyond) (simp_all add: length_pulse56)
  finally show ?thesis .
qed

lemma pitch_pulse56: "estimatePitchHz pulse56 44100 = Some (Fin (8820 / 11))"
  using loud_pulse56
  by (simp add: estimatePitchHz_def rms_pulse56 mean_pulse56 lags_pulse56 Let_def)

lemma cleaned_r_drop_high: "800 < r \<Longrightarrow> cleaned_r (ps @ Fin r # qs) = cleaned_r (ps @ qs)"
  by (simp add: cleaned_r_def)

text \<open>
  Claim C10. A frequency that the estimator returns is the sample rate divided by a lag
  between \<open>floor(sampleRate / 800)\<close> and \<open>floor(sampleRate / 80)\<close>, so it is at least 80 Hz.
  It can exceed 800 Hz: at 44100 Hz the smallest lag is 55, and a buffer with pulses 55
  samples apart gives 44100 / 55 Hz (about 801.8). A sample above 800 Hz is dropped by
  the band filter and changes neither the stability nor the variety sub-score.
\<close>

theorem pitch_range:
  "(estimatePitchHz buf sampleRate = Some hz \<longrightarrow>
      (\<exists>lag. \<lfloor>sampleRate / 800\<rfloor> \<le> lag \<and> lag \<le> \<lfloor>sampleRate / 80\<rfloor> \<and> 0 < lag
           \<and> hz = Fin (sampleRate / of_int lag) \<and> 80 \<le> sampleRate / of_int lag))
   \<and> estimatePitchHz pulse56 44100 = Some (Fin (8820 / 11))
   \<and> (800 :: real) < 8820 / 11
   \<and> (800 < r \<longrightarrow>
         cleaned (ps @ Fin r # qs) = cleaned (ps @ qs)
       \<and> computePitchStability (ps @ Fin r # qs) = computePitchStability (ps @ qs)
       \<and> computePitchVariety (ps @ Fin r # qs) = computePitchVariety (ps @ qs))"
proof (intro conjI impI)
  assume "estimatePitchHz buf sampleRate = Some hz"
  then show "\<exists>lag. \<lfloor>sampleRate / 800\<rfloor> \<le> lag \<and> lag \<le> \<lfloor>sampleRate / 80\<rfloor> \<and> 0 < lag
           \<and> hz = Fin (sampleRate / of_int lag) \<and> 80 \<le> sampleRate / of_int lag"
    by (rule estimate_lag)
next
  show "estimatePitchHz pulse56 44100 = Some (Fin (8820 / 11))"
    by (rule pitch_pulse56)
next
  show "(800 :: real) < 8820 / 11" by simp
next
  assume "800 < r"
  then show "cleaned (ps @ Fin r # qs) = cleaned (ps @ qs)"
    by (simp add: cleaned_eq cleaned_r_drop_high)
next
  assume "800 < r"
  then show "computePitchStability (ps @ Fin r # qs) = computePitchStability (ps @ qs)"
    by (simp add: stability_refines cleaned_r_drop_high)
next
  assume "800 < r"
  then show "computePitchVariety (ps @ Fin r # qs) = computePitchVariety (ps @ qs)"
    by (simp add: variety_refines cleaned_eq cleaned_r_drop_high)
qed

theorem pitch_range_witness:
  "estimatePitchHz pulse56 44100 = Some (Fin (8820 / 11))
   \<and> (\<exists>lag. 55 \<le> lag \<and> lag \<le> 551 \<and> 0 < lag
          \<and> Fin (8820 / 11) = Fin (44100 / of_int lag) \<and> (80 :: real) \<le> 44100 / of_int lag)
   \<and> (800 :: real) < 8820 / 11
   \<and> cleaned ([] @ Fin (8820 / 11) # []) = cleaned ([] @ [])"
proof -
  note t = pitch_range [of pulse56 44100 "Fin (8820 / 11)" "8820 / 11" "[]" "[]"]
  have e: "estimatePitchHz pulse56 44100 = Some (Fin (8820 / 11))"
    using t by blast
  have h: "(800 :: real) < 8820 / 11" by simp
  have f: "\<lfloor>(44100 :: real) / 800\<rfloor> = 55" "\<lfloor>(44100 :: real) / 80\<rfloor> = 551"
    by simp_all
  from t e have "\<exists>lag. \<lfloor>(44100 :: real) / 800\<rfloor> \<le> lag \<and> lag \<le> \<lfloor>(44100 :: real) / 80\<rfloor> \<and> 0 < lag
          \<and> Fin (8820 / 11) = Fin (44100 / of_int lag) \<and> (80 :: real) \<le> 44100 / of_int lag"
    by blast
  then have l: "\<exists>lag. 55 \<le> lag \<and> lag \<le> 551 \<and> 0 < lag
          \<and> Fin (8820 / 11) = Fin (44100 / of_int lag) \<and> (80 :: real) \<le> 44100 / of_int lag"
    unfolding f .
  from t h have "cleaned ([] @ Fin (8820 / 11) # []) = cleaned ([] @ [])"
    by blast
  with e l h show ?thesis by blast
qed

section \<open>Facts about note names\<close>

lemma jrem_nonneg_int:
  "0 \<le> k \<Longrightarrow> jrem (Fin (of_int k)) (Fin 12) = Fin (of_int (k mod 12))"
proof -
  assume k: "0 \<le> k"
  have fl: "\<lfloor>(of_int k :: real) / 12\<rfloor> = k div 12"
    using floor_divide_of_int_eq [of k 12, where ?'a = real] by simp
  have "(of_int k :: real) - 12 * of_int (k div 12) = of_int (k - 12 * (k div 12))"
    by simp
  also have "k - 12 * (k div 12) = k mod 12"
    by (simp add: minus_mult_div_eq_mod)
  finally have "(of_int k :: real) - 12 * of_int (k div 12) = of_int (k mod 12)" .
  with k fl show ?thesis by simp
qed

lemma name_at_index: "0 \<le> m \<Longrightarrow> m < 12 \<Longrightarrow> name_at (Fin (of_int m)) = noteNames ! nat m"
  by simp

lemma hzToNote_midi:
  assumes "0 < h" and "- 1200 \<le> midi_of h"
  shows "hzToNote (Fin h) = noteNames ! nat ((midi_of h + 1200) mod 12) @ show_int (midi_of h div 12 - 1)"
proof -
  let ?m = "midi_of h"
  have midi: "jadd (Fin 69) (jround (jmul (Fin 12) (jlog2 (jdiv (Fin h) (Fin 440))))) = Fin (of_int ?m)"
    using assms(1) by (simp add: midi_of_def)
  have biased: "jadd (Fin (of_int ?m)) (Fin 1200) = Fin (of_int (?m + 1200))"
    by simp
  have idx: "jrem (Fin (of_int (?m + 1200))) (Fin 12) = Fin (of_int ((?m + 1200) mod 12))"
    using assms(2) by (intro jrem_nonneg_int) simp
  have nm: "name_at (Fin (of_int ((?m + 1200) mod 12))) = noteNames ! nat ((?m + 1200) mod 12)"
    by (intro name_at_index) simp_all
  have fl: "\<lfloor>(of_int ?m :: real) / 12\<rfloor> = ?m div 12"
    using floor_divide_of_int_eq [of ?m 12, where ?'a = real] by simp
  have oct: "jsub (jfloor (jdiv (Fin (of_int ?m)) (Fin 12))) (Fin 1) = Fin (of_int (?m div 12 - 1))"
    by (simp add: fl)
  have sh: "show_num (Fin (of_int (?m div 12 - 1))) = show_int (?m div 12 - 1)"
    by (simp del: of_int_diff)
  show ?thesis
    unfolding hzToNote_def Let_def midi biased idx nm oct sh ..
qed

lemma midi_of_vocal: "80 \<le> h \<Longrightarrow> - 1200 \<le> midi_of h"
proof -
  assume h: "80 \<le> h"
  have "log 2 (1 / 8) \<le> log 2 (h / 440)"
    using h by (intro log_mono) simp_all
  moreover have "log 2 (1 / 8) = - 3"
  proof -
    have "(1 / 8 :: real) = 2 powr (- 3)"
      by (simp add: powr_minus divide_simps)
    then show ?thesis by (simp only: log_powr_cancel)
  qed
  ultimately have "- 36 \<le> 12 * log 2 (h / 440)" by simp
  then have "(- 36 :: int) \<le> \<lfloor>12 * log 2 (h / 440) + 1 / 2\<rfloor>"
    by (simp add: le_floor_iff)
  then show ?thesis unfolding midi_of_def by linarith
qed

lemma well_formed_midi: "0 \<le> m \<Longrightarrow> m < 12 \<Longrightarrow> well_formed_note (noteNames ! nat m @ show_int k)"
proof -
  assume "0 \<le> m" "m < 12"
  then have "nat m < length noteNames" by (simp add: noteNames_def)
  then have "noteNames ! nat m \<in> set noteNames" by (rule nth_mem)
  then show ?thesis unfolding well_formed_note_def by blast
qed

text \<open>
  Claim C7, amended. For a positive frequency whose MIDI number is at least \<open>-1200\<close>,
  \<open>hzToNote\<close> returns the name at index \<open>(midi + 1200) mod 12\<close> followed by the octave
  \<open>floor(midi / 12) - 1\<close>, a well-formed note; every frequency of at least 80 Hz is such.
\<close>

theorem hzToNote_well_formed:
  "(0 < h \<and> - 1200 \<le> midi_of h \<longrightarrow>
      hzToNote (Fin h) = noteNames ! nat ((midi_of h + 1200) mod 12) @ show_int (midi_of h div 12 - 1)
    \<and> well_formed_note (hzToNote (Fin h)))
   \<and> (80 \<le> h \<longrightarrow> well_formed_note (hzToNote (Fin h)))"
proof -
  have a: "well_formed_note (hzToNote (Fin h))" if "0 < h" "- 1200 \<le> midi_of h"
    unfolding hzToNote_midi [OF that]
    by (intro well_formed_midi) simp_all
  have b: "well_formed_note (hzToNote (Fin h))" if "80 \<le> h"
    using that a midi_of_vocal [OF that] by simp
  from a b hzToNote_midi show ?thesis by blast
qed

lemma midi_of_440: "midi_of 440 = 69"
  by (simp add: midi_of_def)

theorem hzToNote_well_formed_witness:
  "(0 :: real) < 440 \<and> - 1200 \<le> midi_of 440 \<and> hzToNote (Fin 440) = ''A4''
   \<and> well_formed_note (hzToNote (Fin 440))"
proof -
  have h: "(0 :: real) < 440 \<and> - 1200 \<le> midi_of 440"
    by (simp add: midi_of_440)
  with hzToNote_well_formed [of 440]
  have "hzToNote (Fin 440) = noteNames ! nat ((midi_of 440 + 1200) mod 12) @ show_int (midi_of 440 div 12 - 1)"
    and w: "well_formed_note (hzToNote (Fin 440))"
    by blast+
  then have "hzToNote (Fin 440) = ''A4''"
    by (simp add: midi_of_440 noteNames_def show_int_def digit_char_def)
  with h w show ?thesis by blast
qed

text \<open>
  The claim as stated fails at the positive frequency \<open>440 * 2 ^ (-200)\<close> Hz: the MIDI number
  is \<open>-2331\<close>, the remainder \<open>(midi + 1200) % 12\<close> is \<open>-3\<close>, and the name read is \<open>undefined\<close>.
\<close>

lemma tiny_note: "hzToNote (Fin (440 * 2 powr (- 200))) = ''undefined-196''"
  by (simp add: hzToNote_def show_int_def digit_char_def)

theorem hzToNote_tiny_counterexample:
  "(0 :: real) < 440 * 2 powr (- 200)
   \<and> hzToNote (Fin (440 * 2 powr (- 200))) = ''undefined-196''
   \<and> \<not> well_formed_note (hzToNote (Fin (440 * 2 powr (- 200))))"
  by (simp add: tiny_note well_formed_note_def noteNames_def)

section \<open>Facts about the round\<close>

lemma enabled_loop: "enabled (loop frame raf s) = enabled s"
  by (simp add: loop_def enabled_def Let_def)

lemma enabled_startRound: "enabled (startRound tid s) = enabled s"
  by (simp add: startRound_def enabled_def)

lemma enabled_stopRound: "enabled (stopRound s) = enabled s"
  by (simp add: stopRound_def enabled_def)

lemma enabled_finishRound: "enabled (finishRound srt now1 now2 s) = enabled s"
  by (simp add: finishRound_def enabled_def Let_def)

lemma enabled_tick: "enabled (tick srt now1 now2 s) = enabled s"
  by (simp add: tick_def Let_def enabled_finishRound) (simp add: enabled_def)

lemma enabled_run_frames: "enabled (run_frames fs s) = enabled s"
  unfolding run_frames_def
  by (induction fs arbitrary: s) (simp_all add: enabled_loop split: prod.splits)

lemma startRound_enabled:
  "enabled s \<Longrightarrow> energySamples (startRound tid s) = [] \<and> pitchSamples (startRound tid s) = []
     \<and> secondsLeft (startRound tid s) = 10 \<and> stage (startRound tid s) = singing"
  by (auto simp: startRound_def enabled_def)

lemma startRound_disabled: "\<not> enabled s \<Longrightarrow> startRound tid s = s"
  by (auto simp: startRound_def enabled_def)

lemma loop_disabled: "\<not> enabled s \<Longrightarrow> loop frame raf s = s"
  by (auto simp: loop_def enabled_def)

lemma run_frames_disabled: "\<not> enabled s \<Longrightarrow> run_frames fs s = s"
  unfolding run_frames_def
  by (induction fs arbitrary: s) (simp_all add: loop_disabled split: prod.splits)

lemma restart_enabled:
  "enabled s \<Longrightarrow> energySamples (restart t1 fs t2 s) = [] \<and> pitchSamples (restart t1 fs t2 s) = []
     \<and> secondsLeft (restart t1 fs t2 s) = 10"
  unfolding restart_def
  by (intro conjI startRound_enabled [THEN conjunct1] startRound_enabled [THEN conjunct2, THEN conjunct1]
      startRound_enabled [THEN conjunct2, THEN conjunct2, THEN conjunct1])
     (simp_all add: enabled_stopRound enabled_run_frames enabled_startRound)

lemma restart_disabled:
  "\<not> enabled s \<Longrightarrow> energySamples (restart t1 fs t2 s) = energySamples s
     \<and> pitchSamples (restart t1 fs t2 s) = pitchSamples s
     \<and> secondsLeft (restart t1 fs t2 s) = secondsLeft s"
proof -
  assume d: "\<not> enabled s"
  then have "\<not> enabled (stopRound s)" by (simp add: enabled_stopRound)
  then have "restart t1 fs t2 s = stopRound s"
    using d by (simp add: restart_def startRound_disabled run_frames_disabled)
  then show ?thesis by (simp add: stopRound_def)
qed

lemma fresh_init: "fresh (init nm board best)"
  by (simp add: fresh_def init_def)

lemma fresh_step: "ev \<noteq> Destroy \<Longrightarrow> fresh s \<Longrightarrow> fresh (step srt s ev)"
proof (cases ev)
  case (EnableMic granted rate frame raf)
  assume "fresh s"
  show ?thesis
  proof (cases granted)
    case True
    then have "enabled (step srt s ev)"
      by (simp add: EnableMic enableMic_def enabled_loop) (simp add: enabled_def)
    then show ?thesis by (simp add: fresh_def)
  next
    case False
    with \<open>fresh s\<close> show ?thesis
      by (simp add: EnableMic enableMic_def fresh_def enabled_def)
  qed
next
  case (Frame frame raf)
  assume "fresh s"
  then show ?thesis
    by (cases "enabled s") (simp_all add: Frame fresh_def enabled_loop loop_disabled)
next
  case (StartRound tid)
  assume "fresh s"
  then show ?thesis
    by (cases "enabled s") (simp_all add: StartRound fresh_def enabled_startRound startRound_disabled)
next
  case StopRound
  assume "fresh s"
  then show ?thesis
    by (auto simp: StopRound fresh_def enabled_stopRound) (simp_all add: stopRound_def)
next
  case (Tick now1 now2)
  assume "fresh s"
  show ?thesis
  proof (cases "enabled s")
    case True
    then have "enabled (step srt s ev)" by (simp add: Tick enabled_tick)
    then show ?thesis by (simp add: fresh_def)
  next
    case False
    with \<open>fresh s\<close> have "roundTimerId s = None" by (simp add: fresh_def)
    then have "step srt s ev = s" by (simp add: Tick tick_def)
    with \<open>fresh s\<close> show ?thesis by simp
  qed
next
  case Destroy
  assume "ev \<noteq> Destroy"
  with Destroy show ?thesis by simp
qed

lemma fresh_run: "Destroy \<notin> set evs \<Longrightarrow> fresh s \<Longrightarrow> fresh (run srt evs s)"
  unfolding run_def
  by (induction evs arbitrary: s) (auto simp: fresh_step)

text \<open>
  Claim C8. On every component that was not destroyed (any session of enabling the
  microphone, frames, starts, aborts and ticks since its construction, with any stored
  leaderboard), \<open>start(); abort(); start()\<close> leaves both sample sequences empty and
  \<open>secondsLeft\<close> at 10, whatever frames arrive during the aborted round. When the analyser
  and the buffer are in place this holds from any state, because \<open>start()\<close> clears and
  resets; when they are not, \<open>start()\<close> returns at its guard and changes nothing, and the
  sequences are still empty and the clock still at 10.
\<close>

theorem restart_resets:
  "(Destroy \<notin> set evs \<longrightarrow>
      energySamples (restart t1 fs t2 (run srt evs (init nm board best))) = []
    \<and> pitchSamples (restart t1 fs t2 (run srt evs (init nm board best))) = []
    \<and> secondsLeft (restart t1 fs t2 (run srt evs (init nm board best))) = 10)
   \<and> (enabled s \<longrightarrow>
      energySamples (restart t1 fs t2 s) = [] \<and> pitchSamples (restart t1 fs t2 s) = []
    \<and> secondsLeft (restart t1 fs t2 s) = 10)
   \<and> (\<not> enabled s \<longrightarrow>
      startRound t1 s = s
    \<and> energySamples (restart t1 fs t2 s) = energySamples s
    \<and> pitchSamples (restart t1 fs t2 s) = pitchSamples s
    \<and> secondsLeft (restart t1 fs t2 s) = secondsLeft s)"
proof (intro conjI impI)
  assume "Destroy \<notin> set evs"
  then have f: "fresh (run srt evs (init nm board best))"
    by (intro fresh_run fresh_init)
  let ?s = "run srt evs (init nm board best)"
  have "energySamples (restart t1 fs t2 ?s) = [] \<and> pitchSamples (restart t1 fs t2 ?s) = []
        \<and> secondsLeft (restart t1 fs t2 ?s) = 10"
  proof (cases "enabled ?s")
    case True
    then show ?thesis by (rule restart_enabled)
  next
    case False
    with f restart_disabled [OF False, of t1 fs t2] show ?thesis
      by (simp add: fresh_def)
  qed
  then show "energySamples (restart t1 fs t2 ?s) = []"
    and "pitchSamples (restart t1 fs t2 ?s) = []"
    and "secondsLeft (restart t1 fs t2 ?s) = 10"
    by simp_all
qed (simp_all add: restart_enabled restart_disabled startRound_disabled)

lemma mid_round_state:
  "run srt mid_round (init [] [] None) =
     mic_on\<lparr> stage := singing, secondsLeft := 9, energySamples := [Fin 0],
             roundTimerId := Some 1, rafId := Some 2 \<rparr>"
  by (simp add: run_def mid_round_def enableMic_def startRound_def loop_def tick_def mic_on_eq
      init_def rms_silent pitch_silent clamp01_Fin clamp01_r_def Let_def)

text \<open>
  A session in the middle of a round, with a sample of that round and the clock at 9; one
  more frame arrives before the abort. And a component on which the microphone was never
  enabled.
\<close>

theorem restart_resets_witness:
  "Destroy \<notin> set mid_round
   \<and> energySamples (run (sort_by compare_entries) mid_round (init [] [] None)) = [Fin 0]
   \<and> secondsLeft (run (sort_by compare_entries) mid_round (init [] [] None)) = 9
   \<and> enabled (run (sort_by compare_entries) mid_round (init [] [] None))
   \<and> energySamples (restart 3 [(silent2048, 4)] 5 (run (sort_by compare_entries) mid_round (init [] [] None))) = []
   \<and> pitchSamples (restart 3 [(silent2048, 4)] 5 (run (sort_by compare_entries) mid_round (init [] [] None))) = []
   \<and> secondsLeft (restart 3 [(silent2048, 4)] 5 (run (sort_by compare_entries) mid_round (init [] [] None))) = 10
   \<and> \<not> enabled (init [] [] None)
   \<and> startRound 1 (init [] [] None) = init [] [] None"
proof -
  have n: "Destroy \<notin> set mid_round"
    by (simp add: mid_round_def)
  have e: "enabled (run (sort_by compare_entries) mid_round (init [] [] None))"
    unfolding mid_round_state by (simp add: enabled_def mic_on_eq init_def)
  have d: "\<not> enabled (init [] [] None)"
    by (simp add: enabled_def init_def)
  note t = restart_resets [of mid_round 3 "[(silent2048, 4)]" 5 "sort_by compare_entries" "[]" "[]" None "init [] [] None"]
  from t n have "energySamples (restart 3 [(silent2048, 4)] 5 (run (sort_by compare_entries) mid_round (init [] [] None))) = []"
    "pitchSamples (restart 3 [(silent2048, 4)] 5 (run (sort_by compare_entries) mid_round (init [] [] None))) = []"
    "secondsLeft (restart 3 [(silent2048, 4)] 5 (run (sort_by compare_entries) mid_round (init [] [] None))) = 10"
    by blast+
  moreover from t d have "startRound 3 (init [] [] None) = init [] [] None"
    by blast
  then have "startRound 1 (init [] [] None) = init [] [] None"
    by (simp add: startRound_def init_def)
  ultimately show ?thesis
    using n e d by (simp add: mid_round_state)
qed

section \<open>Facts about the leaderboard\<close>

lemma compare_positive_iff:
  "ScoreEntry.score x \<noteq> NaN \<Longrightarrow> ScoreEntry.score y \<noteq> NaN \<Longrightarrow>
     jgt (compare_entries x y) (Fin 0) \<longleftrightarrow>
       jgt (ScoreEntry.score y) (ScoreEntry.score x)
       \<or> (ScoreEntry.score y = ScoreEntry.score x \<and> ScoreEntry.ts x < ScoreEntry.ts y)"
  by (cases "ScoreEntry.score x"; cases "ScoreEntry.score y")
     (auto simp: compare_entries_def jgt_def jsub_def Let_def)

lemma compare_negative_iff:
  "ScoreEntry.score x \<noteq> NaN \<Longrightarrow> ScoreEntry.score y \<noteq> NaN \<Longrightarrow>
     jlt (compare_entries x y) (Fin 0) \<longleftrightarrow>
       jgt (ScoreEntry.score x) (ScoreEntry.score y)
       \<or> (ScoreEntry.score x = ScoreEntry.score y \<and> ScoreEntry.ts y < ScoreEntry.ts x)"
  by (cases "ScoreEntry.score x"; cases "ScoreEntry.score y")
     (auto simp: compare_entries_def jgt_def jsub_def Let_def)

lemma compare_not_NaN: "compare_entries x y \<noteq> NaN"
  by (cases "ScoreEntry.score x"; cases "ScoreEntry.score y")
     (auto simp: compare_entries_def jsub_def Let_def)

lemma jlt_trans: "jlt x y \<Longrightarrow> jlt y z \<Longrightarrow> jlt x z"
  by (cases x; cases y; cases z) simp_all

lemma jlt_total: "x \<noteq> NaN \<Longrightarrow> y \<noteq> NaN \<Longrightarrow> jlt x y \<or> x = y \<or> jlt y x"
  by (cases x; cases y) auto

lemma jlt_irrefl: "\<not> jlt x x"
  by (cases x) simp_all

lemma outranks_trans: "outranks a b \<Longrightarrow> outranks b c \<Longrightarrow> outranks a c"
  unfolding outranks_def jgt_def
  using jlt_trans by (metis order_trans)

lemma compare_positive_outranks:
  assumes "ScoreEntry.score x \<noteq> NaN" "ScoreEntry.score y \<noteq> NaN"
    and "jgt (compare_entries x y) (Fin 0)"
  shows "outranks y x"
  using assms by (auto simp: compare_positive_iff outranks_def)

lemma compare_nonpositive_outranks:
  assumes "ScoreEntry.score x \<noteq> NaN" "ScoreEntry.score y \<noteq> NaN"
    and "\<not> jgt (compare_entries x y) (Fin 0)"
  shows "outranks x y"
proof -
  from compare_positive_iff [OF assms(1,2)] assms(3)
  have neg: "\<not> (jgt (ScoreEntry.score y) (ScoreEntry.score x)
       \<or> (ScoreEntry.score y = ScoreEntry.score x \<and> ScoreEntry.ts x < ScoreEntry.ts y))"
    by simp
  then have no: "\<not> jlt (ScoreEntry.score x) (ScoreEntry.score y)"
    and tie: "ScoreEntry.score y = ScoreEntry.score x \<Longrightarrow> ScoreEntry.ts y \<le> ScoreEntry.ts x"
    by (auto simp: jgt_def)
  from jlt_total [OF assms(1,2)] no
  have "ScoreEntry.score x = ScoreEntry.score y \<or> jlt (ScoreEntry.score y) (ScoreEntry.score x)"
    by blast
  with tie show ?thesis
    by (auto simp: outranks_def jgt_def)
qed

lemma set_insert_by: "set (insert_by cmp x ys) = insert x (set ys)"
  by (induction ys) auto

lemma mset_insert_by: "mset (insert_by cmp x ys) = add_mset x (mset ys)"
  by (induction ys) auto

lemma mset_sort_by: "mset (sort_by cmp xs) = mset xs"
  by (induction xs) (simp_all add: mset_insert_by)

lemma array_sort_sort_by: "array_sort (sort_by cmp) cmp"
  by (simp add: array_sort_def mset_sort_by)

lemma sorted_insert_by:
  assumes "ScoreEntry.score x \<noteq> NaN" "\<And>y. y \<in> set ys \<Longrightarrow> ScoreEntry.score y \<noteq> NaN"
    and "sorted_wrt outranks ys"
  shows "sorted_wrt outranks (insert_by compare_entries x ys)"
  using assms(2,3)
proof (induction ys)
  case Nil
  show ?case by simp
next
  case (Cons y ys)
  have y: "ScoreEntry.score y \<noteq> NaN" using Cons.prems(1) by simp
  show ?case
  proof (cases "jgt (compare_entries x y) (Fin 0)")
    case True
    then have "outranks y x"
      using assms(1) y by (intro compare_positive_outranks)
    with True Cons show ?thesis
      by (auto simp: set_insert_by)
  next
    case False
    then have xy: "outranks x y"
      using assms(1) y by (intro compare_nonpositive_outranks)
    then have "\<And>z. z \<in> set ys \<Longrightarrow> outranks x z"
      using Cons.prems(2) outranks_trans by auto
    with False xy Cons.prems(2) show ?thesis by auto
  qed
qed

lemma sorted_sort_by:
  "(\<And>y. y \<in> set xs \<Longrightarrow> ScoreEntry.score y \<noteq> NaN) \<Longrightarrow> sorted_wrt outranks (sort_by compare_entries xs)"
proof (induction xs)
  case Nil
  show ?case by simp
next
  case (Cons x xs)
  have "\<And>y. y \<in> set (sort_by compare_entries xs) \<Longrightarrow> ScoreEntry.score y \<noteq> NaN"
    using Cons.prems mset_sort_by [of compare_entries xs]
    by (metis list.set_intros(2) mset_eq_setD)
  with Cons show ?case
    by (simp add: sorted_insert_by)
qed

lemma consistent_numbers:
  assumes "\<And>y. y \<in> set xs \<Longrightarrow> ScoreEntry.score y \<noteq> NaN"
  shows "consistent_on compare_entries xs"
  unfolding consistent_on_def
proof (intro ballI conjI impI)
  fix a b c
  assume "a \<in> set xs" "b \<in> set xs" "c \<in> set xs"
  then have n: "ScoreEntry.score a \<noteq> NaN" "ScoreEntry.score b \<noteq> NaN" "ScoreEntry.score c \<noteq> NaN"
    using assms by auto
  show "compare_entries a b \<noteq> NaN" by (rule compare_not_NaN)
  show "\<not> jlt (compare_entries a a) (Fin 0)"
    using n by (simp add: compare_negative_iff jgt_def jlt_irrefl)
  show "\<not> jgt (compare_entries a a) (Fin 0)"
    using n by (simp add: compare_positive_iff) (simp add: jgt_def jlt_irrefl)
  show "jlt (compare_entries a b) (Fin 0) \<longleftrightarrow> jgt (compare_entries b a) (Fin 0)"
    using n by (simp add: compare_negative_iff compare_positive_iff)
  {
    assume "jlt (compare_entries a b) (Fin 0) \<and> jlt (compare_entries b c) (Fin 0)"
    then show "jlt (compare_entries a c) (Fin 0)"
      using n
      by (cases "ScoreEntry.score a"; cases "ScoreEntry.score b"; cases "ScoreEntry.score c")
         (auto simp: compare_negative_iff jgt_def)
  }
  {
    assume "\<not> jlt (compare_entries a b) (Fin 0) \<and> \<not> jlt (compare_entries b c) (Fin 0)"
    then show "\<not> jlt (compare_entries a c) (Fin 0)"
      using n
      by (cases "ScoreEntry.score a"; cases "ScoreEntry.score b"; cases "ScoreEntry.score c")
         (auto simp: compare_negative_iff jgt_def)
  }
qed

text \<open>
  When no energy sample is negative or \<open>NaN\<close> and the scores on the board are numbers,
  the board after \<open>finishRound\<close> is ordered by score descending, the more recent entry
  first among equal scores, whatever the order before.
\<close>

lemma leaderboard_sorted_when_numbers:
  assumes "array_sort srt compare_entries"
    and "list_all nonneg (energySamples s)"
    and "list_all (\<lambda>e. ScoreEntry.score e \<noteq> NaN) (leaderboard s)"
  shows "sorted_wrt outranks (leaderboard (finishRound srt now1 now2 s))"
    and "length (leaderboard (finishRound srt now1 now2 s)) \<le> 25"
proof -
  define entry where "entry = \<lparr> ScoreEntry.name = take 18 (trim (if playerName s \<noteq> [] then playerName s else utf16 ''Player'')),
        ScoreEntry.score = ScoreBreakdown.score (computeScore (energySamples s) (pitchSamples s)),
        ScoreEntry.ts = now2,
        mode = (if challengeScore s \<noteq> None then challenge_mode else local_mode) \<rparr>"
  have board: "leaderboard (finishRound srt now1 now2 s) = take 25 (srt (entry # leaderboard s))"
    by (simp add: finishRound_def Let_def entry_def)
  have "ScoreEntry.score entry \<noteq> NaN"
    using assms(2) by (simp add: entry_def round_score_number)
  moreover have "\<And>y. y \<in> set (leaderboard s) \<Longrightarrow> ScoreEntry.score y \<noteq> NaN"
    using assms(3) by (simp add: list_all_iff)
  ultimately have num: "\<And>y. y \<in> set (entry # leaderboard s) \<Longrightarrow> ScoreEntry.score y \<noteq> NaN"
    by auto
  then have "consistent_on compare_entries (entry # leaderboard s)"
    by (rule consistent_numbers)
  with assms(1) have "srt (entry # leaderboard s) = sort_by compare_entries (entry # leaderboard s)"
    by (simp add: array_sort_def)
  moreover have "sorted_wrt outranks (sort_by compare_entries (entry # leaderboard s))"
    using num by (rule sorted_sort_by)
  ultimately show "sorted_wrt outranks (leaderboard (finishRound srt now1 now2 s))"
    unfolding board by (simp add: sorted_wrt_take)
  show "length (leaderboard (finishRound srt now1 now2 s)) \<le> 25"
    unfolding board by simp
qed

lemma nan_round_score:
  "computeScore [NaN] [] =
     \<lparr> ScoreBreakdown.score = NaN, ScoreBreakdown.energy = NaN,
       ScoreBreakdown.stability = Fin 35, ScoreBreakdown.variety = Fin 20 \<rparr>"
proof -
  have e: "energyScore [NaN] = NaN"
    by (simp add: energyScore_def max_spread_def clamp01_NaN fadd_def fmul_def fdiv_def)
  have s: "jround (fmul (computePitchStability64 []) (Fin 100)) = Fin 35"
    and v: "jround (fmul (computePitchVariety []) (Fin 100)) = Fin 20"
    using empty_score by (simp_all add: computeScore_def Let_def)
  show ?thesis
    unfolding computeScore_def Let_def e s v by (simp add: fmul_def fadd_def clamp01_NaN)
qed

lemma nan_round_before_ticks:
  "run srt [EnableMic True 44100 silent2048 1, StartRound 1, Frame nan2048 2] (init [] [bob, ann] None) =
     mic_on\<lparr> stage := singing, leaderboard := [bob, ann], energy := NaN, levelBar := NaN,
             timeData := Some nan2048, energySamples := [NaN], roundTimerId := Some 1,
             rafId := Some 2 \<rparr>"
  using nan_in_nan2048
  by (simp add: run_def enableMic_def startRound_def loop_def mic_on_eq init_def rms_silent
      pitch_silent rms_degenerate pitch_degenerate clamp01_NaN clamp01_Fin clamp01_r_def Let_def)

lemma run_append: "run srt (evs @ evs') s = run srt evs' (run srt evs s)"
  by (simp add: run_def)

lemma ticks_countdown:
  "roundTimerId s \<noteq> None \<Longrightarrow> secondsLeft s = int n + 1 \<Longrightarrow>
     run srt (replicate (Suc n) (Tick a b)) s = finishRound srt a b (s\<lparr> secondsLeft := 0 \<rparr>)"
proof (induction n arbitrary: s)
  case 0
  then show ?case by (auto simp: run_def tick_def)
next
  case (Suc n)
  let ?s = "s\<lparr> secondsLeft := int n + 1 \<rparr>"
  have "run srt (replicate (Suc (Suc n)) (Tick a b)) s = run srt (replicate (Suc n) (Tick a b)) ?s"
    using Suc.prems by (auto simp: run_def tick_def)
  also have "\<dots> = finishRound srt a b (?s\<lparr> secondsLeft := 0 \<rparr>)"
    using Suc.prems by (intro Suc.IH) simp_all
  finally show ?case by simp
qed

lemma nan_board_consistent: "consistent_on compare_entries [nan_entry, bob, ann]"
  by (simp add: consistent_on_def compare_entries_def nan_entry_def bob_def ann_def jgt_def
      jsub_def Let_def)

lemma trim_Player: "take 18 (trim (utf16 ''Player'')) = utf16 ''Player''"
  by (simp add: trim_def utf16_def is_space_def)

lemma nan_round_board:
  assumes "array_sort srt compare_entries"
  shows "leaderboard (nan_round srt) = [nan_entry, bob, ann]"
proof -
  have srt: "srt [nan_entry, bob, ann] = [nan_entry, bob, ann]"
  proof -
    have "srt [nan_entry, bob, ann] = sort_by compare_entries [nan_entry, bob, ann]"
      using assms nan_board_consistent by (simp add: array_sort_def)
    also have "\<dots> = [nan_entry, bob, ann]"
      by (simp add: compare_entries_def nan_entry_def bob_def ann_def jgt_def jsub_def Let_def)
    finally show ?thesis .
  qed
  have e: "\<lparr> ScoreEntry.name = utf16 ''Player'', ScoreEntry.score = NaN, ScoreEntry.ts = 9,
                 mode = local_mode \<rparr> = nan_entry"
    by (simp add: nan_entry_def)
  have ten: "replicate 10 (Tick 8 9) = replicate (Suc 9) (Tick 8 9)"
    by simp
  show ?thesis
    unfolding nan_round_def run_append nan_round_before_ticks ten
    by (subst ticks_countdown [where n = 9])
       (simp_all add: finishRound_def mic_on_eq init_def nan_round_score trim_Player e srt Let_def)
qed

text \<open>
  Claim C9. After a round is finalized the leaderboard should be ordered by score
  descending. A round in which a frame of \<open>NaN\<close> samples arrives has the score \<open>NaN\<close>, and
  its entry is put first, before the scores 62 and 50: the board is not ordered by score,
  since \<open>NaN\<close> is not at least 62. (The comparator is consistent on these three entries,
  so every engine's sort gives this order.) The board does have at most 25 entries, and it
  is ordered whenever all scores are numbers: \<open>leaderboard_sorted_when_numbers\<close>.
\<close>

theorem leaderboard_unordered_after_nan_frame:
  "array_sort srt compare_entries \<longrightarrow>
     leaderboard (nan_round srt) = [nan_entry, bob, ann]
   \<and> ScoreEntry.score nan_entry = NaN
   \<and> ScoreEntry.score bob = Fin 62
   \<and> \<not> jge (ScoreEntry.score nan_entry) (ScoreEntry.score bob)
   \<and> \<not> sorted_wrt outranks (leaderboard (nan_round srt))"
proof
  assume "array_sort srt compare_entries"
  then have "leaderboard (nan_round srt) = [nan_entry, bob, ann]"
    by (rule nan_round_board)
  then show "leaderboard (nan_round srt) = [nan_entry, bob, ann]
   \<and> ScoreEntry.score nan_entry = NaN
   \<and> ScoreEntry.score bob = Fin 62
   \<and> \<not> jge (ScoreEntry.score nan_entry) (ScoreEntry.score bob)
   \<and> \<not> sorted_wrt outranks (leaderboard (nan_round srt))"
    by (simp add: outranks_def nan_entry_def bob_def ann_def jgt_def jge_def)
qed

text \<open>The stable insertion sort is one such engine.\<close>

theorem leaderboard_unordered_after_nan_frame_witness:
  "array_sort (sort_by compare_entries) compare_entries
   \<and> leaderboard (nan_round (sort_by compare_entries)) = [nan_entry, bob, ann]
   \<and> \<not> sorted_wrt outranks (leaderboard (nan_round (sort_by compare_entries)))"
  using leaderboard_unordered_after_nan_frame [of "sort_by compare_entries"]
    array_sort_sort_by [of compare_entries]
  by blast

end
